theory Spec2Isabelle
  imports Main "HOL-Library.Log_Nat"
begin

text \<open>
  A model of the sensor polling engine of \<open>sensors.c\<close>: the response scanner, the decoding
  of a positive response, the refresh-rate estimator \<open>calculate_refresh_rate\<close>, and the
  dialog procedures \<open>sensor_proc\<close>, \<open>toggle_proc\<close>, \<open>fill_sensors\<close> and the page flip.
  Every definition follows the C text; the sections below give the definitions first and
  the properties after them.
\<close>

section \<open>The response scanner: \<open>find_valid_response\<close>\<close>

text \<open>
  A C string is modelled by the list of its characters before the terminating NUL, so the
  end of the list plays the part of \<open>*in_ptr == 0\<close>. \<open>SPECIAL_DELIMITER\<close> is a macro of a
  header that is not part of \<open>sensors.c\<close>; it is a parameter \<open>delim\<close> of the model.
\<close>

text \<open>The test \<open>*in_ptr == '4' && *(in_ptr+1) == '1'\<close>; at the last character the second
  read sees the terminator.\<close>

fun is_valid_start :: "string \<Rightarrow> bool" where
  "is_valid_start (c # d # rest) = (c = CHR ''4'' \<and> d = CHR ''1'')"
| "is_valid_start _ = False"

text \<open>The inner loop of the first branch copies characters to \<open>buf\<close> until the terminator
  or the delimiter; it returns what it copied.\<close>

fun copy_response :: "char \<Rightarrow> string \<Rightarrow> string" where
  "copy_response delim [] = []"
| "copy_response delim (c # rest) =
     (if c \<noteq> delim then c # copy_response delim rest else [])"

text \<open>The inner loop of the second branch advances \<open>in_ptr\<close> until the terminator or the
  delimiter; it returns the text \<open>in_ptr\<close> then points at. The pointer stops \<^emph>\<open>at\<close> the
  delimiter: the source has no statement that steps over it.\<close>

fun skip_to_delimiter :: "char \<Rightarrow> string \<Rightarrow> string" where
  "skip_to_delimiter delim [] = []"
| "skip_to_delimiter delim (c # rest) =
     (if c \<noteq> delim then skip_to_delimiter delim rest else c # rest)"

text \<open>The outer loop \<open>while (*in_ptr)\<close>. Its result is the final content of \<open>buf\<close>
  (initially empty). The loop need not end, so it is a partial function: \<open>None\<close> means that
  the loop runs forever.\<close>

partial_function (option) scan_response :: "char \<Rightarrow> string \<Rightarrow> string option" where
  "scan_response delim inp =
     (if inp = [] then Some []
      else if is_valid_start inp then Some (copy_response delim inp)
      else scan_response delim (skip_to_delimiter delim inp))"

text \<open>\<open>find_valid_response\<close> returns \<open>TRUE\<close> exactly when \<open>buf\<close> is not empty; the model
  returns that flag together with \<open>buf\<close>.\<close>

definition find_valid_response :: "char \<Rightarrow> string \<Rightarrow> (bool \<times> string) option" where
  "find_valid_response delim response =
     map_option (\<lambda>buf. (0 < length buf, buf)) (scan_response delim response)"


section \<open>Numbers and text\<close>

subsection \<open>\<open>strtol(s, 0, 16)\<close>\<close>

text \<open>The C library's \<open>isspace\<close> in the "C" locale.\<close>

definition isspace :: "char \<Rightarrow> bool" where
  "isspace c = (c = CHR '' '' \<or> (9 \<le> (of_char c :: nat) \<and> (of_char c :: nat) \<le> 13))"

text \<open>The value of a hexadecimal digit, \<open>None\<close> for any other character.\<close>

definition hex_digit :: "char \<Rightarrow> nat option" where
  "hex_digit c =
     (let n = (of_char c :: nat) in
      if 48 \<le> n \<and> n \<le> 57 then Some (n - 48)
      else if 65 \<le> n \<and> n \<le> 70 then Some (n - 55)
      else if 97 \<le> n \<and> n \<le> 102 then Some (n - 87)
      else None)"

text \<open>The digit loop of \<open>strtol\<close>: it stops at the first character that is no digit.\<close>

fun strtol_digits :: "nat \<Rightarrow> string \<Rightarrow> nat" where
  "strtol_digits acc [] = acc"
| "strtol_digits acc (c # rest) =
     (case hex_digit c of
        None \<Rightarrow> acc
      | Some v \<Rightarrow> strtol_digits (16 * acc + v) rest)"

text \<open>The program is built for targets where \<open>long\<close> and \<open>int\<close> have 32 bits: \<open>strtol\<close>
  clamps to \<open>LONG_MAX\<close> and \<open>LONG_MIN\<close>, and the cast to \<open>int\<close> changes nothing.\<close>

definition LONG_MAX :: int where
  "LONG_MAX = 2 ^ 31 - 1"

definition LONG_MIN :: int where
  "LONG_MIN = - (2 ^ 31)"

text \<open>\<open>strtol\<close> with base 16: white space, an optional sign, an optional \<open>0x\<close> prefix,
  then the digits. A prefix that no digit follows yields 0 as well, from the \<open>0\<close> of the
  prefix.\<close>

definition strtol_sign :: "string \<Rightarrow> bool \<times> string" where
  "strtol_sign s =
     (case s of
        [] \<Rightarrow> (False, s)
      | c # r \<Rightarrow> if c = CHR ''-'' then (True, r) else if c = CHR ''+'' then (False, r)
                 else (False, s))"

definition strtol_prefix :: "string \<Rightarrow> string" where
  "strtol_prefix s =
     (case s of
        c # x # r \<Rightarrow> if c = CHR ''0'' \<and> (x = CHR ''x'' \<or> x = CHR ''X'') then r else s
      | _ \<Rightarrow> s)"

definition strtol16 :: "string \<Rightarrow> int" where
  "strtol16 s =
     (let (neg, s2) = strtol_sign (dropWhile isspace s);
          v = int (strtol_digits 0 (strtol_prefix s2))
      in if neg then max LONG_MIN (- v) else min LONG_MAX v)"

subsection \<open>\<open>sprintf("%i")\<close>\<close>

definition digit_char :: "nat \<Rightarrow> char" where
  "digit_char n = ''0123456789'' ! n"

function show_nat :: "nat \<Rightarrow> string" where
  "show_nat n = (if n < 10 then [digit_char n] else show_nat (n div 10) @ [digit_char (n mod 10)])"
  by pat_completeness auto
termination
  by (relation "measure id") auto

declare show_nat.simps [simp del]

definition show_int :: "int \<Rightarrow> string" where
  "show_int i = (if i < 0 then CHR ''-'' # show_nat (nat (- i)) else show_nat (nat i))"

subsection \<open>The \<open>float\<close> arithmetic of the RPM formula\<close>

text \<open>
  \<open>(float)data\<close> rounds a 32-bit \<open>int\<close> to the 24 significant bits of IEEE binary32, ties
  to even. The result is again an integer, and it is \<open>data\<close> itself when
  \<open>|data| < 2^24\<close>.
\<close>

definition float_of_int :: "int \<Rightarrow> int" where
  "float_of_int i =
     (let a = \<bar>i\<bar>; e = nat (bitlen a - 24) in
      if e = 0 then i
      else
        let q = a div 2 ^ e; r = a mod 2 ^ e;
            q' = (if 2 * r > 2 ^ e \<or> (2 * r = 2 ^ e \<and> odd q) then q + 1 else q)
        in sgn i * (q' * 2 ^ e))"

text \<open>\<open>(int)(x / 4)\<close> for a \<open>float\<close> \<open>x\<close> of integer value: the division by 4 is exact in
  binary32, and the cast truncates toward zero.\<close>

definition trunc_quarter :: "int \<Rightarrow> int" where
  "trunc_quarter x = sgn x * (\<bar>x\<bar> div 4)"

datatype measurement = METRIC | IMPERIAL

text \<open>\<open>engine_rpm_formula\<close>; the global \<open>system_of_measurements\<close> is the first argument,
  the text printed to \<open>buf\<close> is the result.\<close>

definition engine_rpm_formula :: "measurement \<Rightarrow> int \<Rightarrow> string" where
  "engine_rpm_formula system_of_measurements data =
     (if system_of_measurements = METRIC
      then show_int (trunc_quarter (float_of_int data)) @ '' r/min''
      else show_int (trunc_quarter (float_of_int data)) @ '' rpm'')"

subsection \<open>The rates: C floating-point values\<close>

text \<open>
  The refresh rates are \<open>float\<close>s, and the expression that computes the instantaneous rate
  is evaluated in \<open>double\<close>. A floating-point value is a rational number, an infinity or a
  NaN. Every operation rounds the exact result to the format of its C type (IEEE 754
  binary32 for \<open>float\<close>, binary64 for \<open>double\<close>, round to nearest, ties to even), which is
  what a compiler with \<open>FLT_EVAL_METHOD\<close> 0 emits. The two zeros are one value: every divisor
  of the program is the conversion of an \<open>int\<close> or its product with a positive constant, so
  a zero divisor is always \<open>+0.0\<close>.
\<close>

datatype cfloat = Fin rat | PInf | NInf | NaN

text \<open>The exponent of a positive rational: \<open>2^e \<le> x < 2^(e+1)\<close>.\<close>

definition floor_log2 :: "rat \<Rightarrow> int" where
  "floor_log2 x = (if 1 \<le> x then bitlen \<lfloor>x\<rfloor> - 1 else - bitlen (\<lceil>1 / x\<rceil> - 1))"

text \<open>The nearest integer, a tie going to the even one.\<close>

definition round_half_even :: "rat \<Rightarrow> int" where
  "round_half_even x =
     (let f = \<lfloor>x\<rfloor>; r = x - of_int f in
      if r < 1 / 2 then f else if 1 / 2 < r then f + 1 else if even f then f else f + 1)"

text \<open>Rounding to the format with \<open>p\<close> significant bits and largest exponent \<open>emax\<close>: the
  spacing of the format at \<open>x\<close> is \<open>2^(e - p + 1)\<close>, where \<open>e\<close> is the exponent of \<open>x\<close> and at
  least the exponent \<open>1 - emax\<close> of the subnormal numbers; a result of magnitude
  \<open>2^(emax + 1)\<close> is an overflow.\<close>

definition fround :: "nat \<Rightarrow> int \<Rightarrow> rat \<Rightarrow> cfloat" where
  "fround p emax x =
     (if x = 0 then Fin 0
      else
        let e = max (floor_log2 \<bar>x\<bar>) (1 - emax);
            ulp = 2 powi (e - int p + 1);
            y = of_int (round_half_even (\<bar>x\<bar> / ulp)) * ulp
        in if 2 powi (emax + 1) \<le> y then (if 0 < x then PInf else NInf) else Fin (sgn x * y))"

definition binary32 :: "rat \<Rightarrow> cfloat" where
  "binary32 = fround 24 127"

definition binary64 :: "rat \<Rightarrow> cfloat" where
  "binary64 = fround 53 1023"

text \<open>Addition, multiplication and division in the format whose rounding is \<open>rnd\<close>.\<close>

fun fadd :: "(rat \<Rightarrow> cfloat) \<Rightarrow> cfloat \<Rightarrow> cfloat \<Rightarrow> cfloat" where
  "fadd rnd NaN _ = NaN"
| "fadd rnd _ NaN = NaN"
| "fadd rnd (Fin a) (Fin b) = rnd (a + b)"
| "fadd rnd PInf NInf = NaN"
| "fadd rnd NInf PInf = NaN"
| "fadd rnd PInf _ = PInf"
| "fadd rnd _ PInf = PInf"
| "fadd rnd NInf _ = NInf"
| "fadd rnd _ NInf = NInf"

fun fmul :: "(rat \<Rightarrow> cfloat) \<Rightarrow> cfloat \<Rightarrow> cfloat \<Rightarrow> cfloat" where
  "fmul rnd NaN _ = NaN"
| "fmul rnd _ NaN = NaN"
| "fmul rnd (Fin a) (Fin b) = rnd (a * b)"
| "fmul rnd (Fin a) PInf = (if a = 0 then NaN else if 0 < a then PInf else NInf)"
| "fmul rnd (Fin a) NInf = (if a = 0 then NaN else if 0 < a then NInf else PInf)"
| "fmul rnd PInf (Fin b) = (if b = 0 then NaN else if 0 < b then PInf else NInf)"
| "fmul rnd NInf (Fin b) = (if b = 0 then NaN else if 0 < b then NInf else PInf)"
| "fmul rnd PInf PInf = PInf"
| "fmul rnd NInf NInf = PInf"
| "fmul rnd PInf NInf = NInf"
| "fmul rnd NInf PInf = NInf"

fun fdiv :: "(rat \<Rightarrow> cfloat) \<Rightarrow> cfloat \<Rightarrow> cfloat \<Rightarrow> cfloat" where
  "fdiv rnd NaN _ = NaN"
| "fdiv rnd _ NaN = NaN"
| "fdiv rnd (Fin a) (Fin b) =
     (if b = 0 then (if a = 0 then NaN else if 0 < a then PInf else NInf) else rnd (a / b))"
| "fdiv rnd (Fin a) _ = Fin 0"
| "fdiv rnd PInf (Fin b) = (if 0 \<le> b then PInf else NInf)"
| "fdiv rnd NInf (Fin b) = (if 0 \<le> b then NInf else PInf)"
| "fdiv rnd _ _ = NaN"

text \<open>The conversion of a \<open>double\<close> to \<open>float\<close> in an assignment, and the conversions of
  an \<open>int\<close>: to \<open>double\<close> it is exact for every 32-bit value, to \<open>float\<close> it rounds.\<close>

fun double_to_float :: "cfloat \<Rightarrow> cfloat" where
  "double_to_float (Fin a) = binary32 a"
| "double_to_float x = x"

definition int_to_double :: "int \<Rightarrow> cfloat" where
  "int_to_double i = binary64 (of_int i)"

definition cfloat_of_int :: "int \<Rightarrow> cfloat" where
  "cfloat_of_int i = binary32 (of_int i)"

text \<open>The arithmetic of \<open>int\<close>: a result outside the 32 bits is taken modulo \<open>2^32\<close>, as the
  two's-complement machine computes it (the C standard leaves it undefined).\<close>

definition wrap32 :: "int \<Rightarrow> int" where
  "wrap32 i = (i + 2 ^ 31) mod 2 ^ 32 - 2 ^ 31"


section \<open>The session state\<close>

text \<open>
  \<open>SENSOR\<close> is the struct of the source. The function pointer \<open>formula\<close> is a function
  from the unit system and the raw value to the text it prints. The \<open>int\<close> field \<open>enabled\<close>
  is only ever tested for being non-zero and assigned \<open>TRUE\<close> or \<open>FALSE\<close>; it is a
  \<open>bool\<close>. The character arrays are strings; their capacities are not modelled.
\<close>

record SENSOR =
  formula :: "measurement \<Rightarrow> int \<Rightarrow> string"
  label :: string
  screen_buf :: string
  command :: string
  enabled :: bool
  bytes :: nat

text \<open>The row of Engine RPM in the table \<open>sensors[]\<close>.\<close>

definition engine_rpm_sensor :: SENSOR where
  "engine_rpm_sensor =
     \<lparr>formula = engine_rpm_formula, label = ''Engine RPM:'', screen_buf = [],
      command = ''010C'', enabled = True, bytes = 2\<rparr>"

text \<open>The fields of Allegro's \<open>DIALOG\<close> that the procedures of this file read or write.
  The two bits of \<open>flags\<close> are two booleans, \<open>dp\<close> is the caption of a toggle button, and
  \<open>dp3\<close> points into \<open>sensors[]\<close>: it is an index, \<open>None\<close> for \<open>NULL\<close>. Colours and
  geometry are left out.\<close>

record DIALOG =
  d1 :: int
  d2 :: int
  D_DISABLED :: bool
  D_DIRTY :: bool
  dp :: string
  dp3 :: "nat option"

datatype msg = MSG_START | MSG_END | MSG_DRAW | MSG_IDLE | MSG_TOGGLE | MSG_UPDATE | MSG_REFRESH

datatype dret = D_O_K | D_REDRAWME

datatype sensor_state = SENSOR_OFF | SENSOR_ACTIVE | SENSOR_NA

datatype port_status = READY | NOT_OPEN | USER_IGNORED

datatype response_status = EMPTY | DATA | PROMPT

text \<open>The codes of \<open>process_response\<close> that \<open>sensor_proc\<close> names, and one constructor for
  every other code of the absent header.\<close>

datatype response_type =
    HEX_DATA | ERR_NO_DATA | BUS_ERROR | BUS_BUSY | DATA_ERROR | DATA_ERROR2
  | SERIAL_ERROR | RUBBISH | OTHER_RESPONSE int

text \<open>What the procedures ask of their collaborators, in the order they ask it.\<close>

datatype event =
    Alert "string list"
  | Alert3 "string list"
  | Send_command string
  | Start_serial_timer
  | Stop_serial_timer
  | Reset_chip
  | Install_int
  | Display_options
  | Broadcast msg int

text \<open>The globals of the file, the \<open>static\<close> locals of \<open>calculate_refresh_rate\<close> and of
  \<open>sensor_proc\<close>, the two globals of other files that the procedures read and write
  (\<open>comport.status\<close>, \<open>system_of_measurements\<close>), and the trace of events. The table
  \<open>sensors[]\<close> is the list of its rows before the terminating row with \<open>formula == NULL\<close>.
  C \<open>int\<close>s are integers: the counters stay far from the 32-bit bounds, except the tick
  counter \<open>refresh_time\<close>, whose increment and product are taken in 32 bits.\<close>

record session =
  device_connected :: bool
  reset_hardware :: bool
  num_of_sensors :: int
  num_of_disabled_sensors :: int
  sensors_on_page :: int
  current_page :: int
  inst_refresh_rate :: cfloat
  avg_refresh_rate :: cfloat
  refresh_time :: int
  sensors :: "SENSOR list"
  initialization_occured :: bool
  num_of_sensors_off :: int
  reset_on_all_off_occured :: bool
  sensors_on_counter :: int
  avg_refresh_rate_accumulator :: cfloat
  current_sensor :: int
  new_page :: bool
  receiving_response :: bool
  num_of_sensors_timed_out :: int
  ignore_device_not_connected :: bool
  retry_attempts :: int
  vehicle_response :: string
  comport_status :: port_status
  system_of_measurements :: measurement
  trace :: "event list"

definition SENSORS_PER_PAGE :: int where
  "SENSORS_PER_PAGE = 9"

definition NUM_OF_RETRIES :: int where
  "NUM_OF_RETRIES = 3"

definition SENSORS_TO_TIME_OUT :: int where
  "SENSORS_TO_TIME_OUT = 3"

definition REFRESH_RATE_PRECISION :: int where
  "REFRESH_RATE_PRECISION = 10"

text \<open>\<open>inc_refresh_time\<close>, the handler that the timer calls every
  \<open>REFRESH_RATE_PRECISION\<close> milliseconds once it is installed.\<close>

definition inc_refresh_time :: "session \<Rightarrow> session" where
  "inc_refresh_time s = s\<lparr>refresh_time := wrap32 (refresh_time s + 1)\<rparr>"

definition emit :: "event \<Rightarrow> session \<Rightarrow> session" where
  "emit e s = s\<lparr>trace := trace s @ [e]\<rparr>"

text \<open>\<open>strcpy(sensors[k].screen_buf, text)\<close>.\<close>

definition set_screen_buf :: "nat \<Rightarrow> string \<Rightarrow> session \<Rightarrow> session" where
  "set_screen_buf k text s = s\<lparr>sensors := (sensors s)[k := (sensors s ! k)\<lparr>screen_buf := text\<rparr>]\<rparr>"

definition set_enabled :: "nat \<Rightarrow> bool \<Rightarrow> session \<Rightarrow> session" where
  "set_enabled k b s = s\<lparr>sensors := (sensors s)[k := (sensors s ! k)\<lparr>enabled := b\<rparr>]\<rparr>"

section \<open>The refresh-rate estimator\<close>

text \<open>The divisor \<open>refresh_time*REFRESH_RATE_PRECISION*0.001\<close>, as a function of the value
  read from \<open>refresh_time\<close>: the product of the two \<open>int\<close>s is an \<open>int\<close>; it is converted to
  \<open>double\<close> and multiplied by the \<open>double\<close> constant \<open>0.001\<close>, which is the \<open>double\<close>
  nearest to 1/1000.\<close>

definition elapsed_seconds :: "int \<Rightarrow> cfloat" where
  "elapsed_seconds ticks =
     fmul binary64 (int_to_double (wrap32 (ticks * REFRESH_RATE_PRECISION))) (binary64 (1 / 1000))"

text \<open>The value that \<open>inst_refresh_rate = 1/(refresh_time*REFRESH_RATE_PRECISION*0.001)\<close>
  stores: the quotient is a \<open>double\<close> and is converted to \<open>float\<close> by the assignment.\<close>

definition sample_rate :: "int \<Rightarrow> cfloat" where
  "sample_rate ticks = double_to_float (fdiv binary64 (int_to_double 1) (elapsed_seconds ticks))"

text \<open>The branch \<open>sensor_state != SENSOR_OFF\<close> of \<open>calculate_refresh_rate\<close>. The sum and the
  average are \<open>float\<close> operations, the count being converted to \<open>float\<close>.\<close>

definition take_sample :: "sensor_state \<Rightarrow> session \<Rightarrow> session" where
  "take_sample sensor_state s =
     (let s1 = s\<lparr>reset_on_all_off_occured := False,
                 inst_refresh_rate := sample_rate (refresh_time s)\<rparr>;
          s2 = (if sensors_on_counter s1 < sensors_on_page s1 - num_of_disabled_sensors s1
                then s1\<lparr>sensors_on_counter := sensors_on_counter s1 + 1,
                        avg_refresh_rate_accumulator :=
                          fadd binary32 (avg_refresh_rate_accumulator s1) (inst_refresh_rate s1)\<rparr>
                else s1\<lparr>avg_refresh_rate :=
                          fdiv binary32 (avg_refresh_rate_accumulator s1)
                               (cfloat_of_int (sensors_on_counter s1)),
                        avg_refresh_rate_accumulator := Fin 0,
                        sensors_on_counter := 0\<rparr>);
          s3 = (if sensor_state = SENSOR_ACTIVE then s2\<lparr>refresh_time := 0\<rparr> else s2)
      in emit (Broadcast MSG_REFRESH 0) s3)"

text \<open>\<open>calculate_refresh_rate\<close>. The static \<open>num_of_sensors_off\<close> is initialised to 0 and
  no statement of the file assigns it.\<close>

definition calculate_refresh_rate :: "sensor_state \<Rightarrow> session \<Rightarrow> session" where
  "calculate_refresh_rate sensor_state s =
     (if \<not> initialization_occured s then
        (if sensor_state = SENSOR_ACTIVE
         then (emit Install_int (s\<lparr>refresh_time := 0\<rparr>))\<lparr>initialization_occured := True\<rparr>
         else s)
      else if num_of_sensors_off s \<ge> sensors_on_page s \<and> \<not> reset_on_all_off_occured s then
        emit (Broadcast MSG_REFRESH 0)
          (s\<lparr>inst_refresh_rate := Fin 0, avg_refresh_rate := Fin 0,
             reset_on_all_off_occured := True\<rparr>)
      else if sensor_state \<noteq> SENSOR_OFF then take_sample sensor_state s
      else s)"


section \<open>The collaborators\<close>

text \<open>
  What one call of \<open>sensor_proc\<close> obtains from code that is not in \<open>sensors.c\<close>:
  the macro \<open>SPECIAL_DELIMITER\<close>; the result of \<open>read_comport(buf)\<close> (the status and the
  text stored in \<open>buf\<close>); \<open>process_response\<close>, which classifies the response and rewrites it
  in place; the flag \<open>serial_time_out\<close> as the call reads it; the button chosen in the
  three-button alert; what \<open>display_options()\<close> leaves in \<open>comport.status\<close> and
  \<open>system_of_measurements\<close>; and, for the "Port is not ready" loop, the user's answers, each
  with what \<open>display_options()\<close> would leave.
\<close>

record externals =
  SPECIAL_DELIMITER :: char
  read_comport :: "response_status \<times> string"
  process_response :: "string \<Rightarrow> string \<Rightarrow> response_type \<times> string"
  serial_time_out :: bool
  alert3_choice :: int
  options_result :: "port_status \<times> measurement"
  port_answers :: "(int \<times> port_status \<times> measurement) list"

text \<open>How a call can fail to return a defined result: the scanner loops forever; the user
  never leaves the "Port is not ready" loop (the answers run out); \<open>strcat\<close> writes past
  the 512 bytes of \<open>vehicle_response\<close>, or the scanner copies a token past the 80 bytes of
  \<open>buf\<close>; \<open>strtol\<close> reads bytes of \<open>buf\<close> behind the terminator of a token shorter than 4
  characters.\<close>

datatype failure = Hangs | Port_loop | Overflow | Stale_read

definition display_options :: "port_status \<times> measurement \<Rightarrow> session \<Rightarrow> session" where
  "display_options r s =
     (emit Display_options s)\<lparr>comport_status := fst r, system_of_measurements := snd r\<rparr>"

section \<open>\<open>sensor_proc\<close>\<close>

text \<open>The expression \<open>(current_sensor == sensors_on_page - 1) ? 0 : current_sensor + 1\<close>.\<close>

definition next_sensor :: "session \<Rightarrow> int" where
  "next_sensor s = (if current_sensor s = sensors_on_page s - 1 then 0 else current_sensor s + 1)"

definition advance :: "session \<Rightarrow> session" where
  "advance s = s\<lparr>current_sensor := next_sensor s\<rparr>"

text \<open>The statements after the \<open>switch\<close>: a disabled control shows "not monitoring".\<close>

definition after_switch :: "DIALOG \<Rightarrow> nat \<Rightarrow> session \<Rightarrow> dret \<times> DIALOG \<times> session" where
  "after_switch d k s =
     (D_O_K, d, if D_DISABLED d then set_screen_buf k ''not monitoring'' s else s)"

text \<open>\<open>case MSG_UPDATE\<close>, up to its \<open>break\<close>.\<close>

definition on_update :: "DIALOG \<Rightarrow> nat \<Rightarrow> session \<Rightarrow> DIALOG \<times> session" where
  "on_update d k s =
     (let s1 = (if d1 d = 0
                then s\<lparr>current_sensor := 0, num_of_sensors_timed_out := 0, new_page := True,
                       inst_refresh_rate := Fin 0, avg_refresh_rate := Fin 0,
                       refresh_time := 0\<rparr>
                else s);
          en = enabled (sensors s1 ! k);
          da = (if (en \<and> D_DISABLED d) \<or> (\<not> en \<and> \<not> D_DISABLED d) then d\<lparr>d2 := 1\<rparr> else d)
      in (da\<lparr>D_DIRTY := True\<rparr>, s1))"

text \<open>\<open>case MSG_START\<close>, which falls through into \<open>MSG_UPDATE\<close>.\<close>

definition on_start :: "DIALOG \<Rightarrow> nat \<Rightarrow> session \<Rightarrow> DIALOG \<times> session" where
  "on_start d k s =
     (let s1 = (if d1 d = 0
                then (emit Stop_serial_timer s)
                       \<lparr>receiving_response := False, device_connected := False,
                        ignore_device_not_connected := False, num_of_disabled_sensors := 0\<rparr>
                else s)
      in on_update (d\<lparr>d2 := 0, D_DISABLED := False\<rparr>) k s1)"

text \<open>\<open>case MSG_END\<close>.\<close>

definition on_end :: "DIALOG \<Rightarrow> session \<Rightarrow> DIALOG \<times> session" where
  "on_end d s =
     (d\<lparr>dp3 := None\<rparr>,
      if d1 d = sensors_on_page s - 1 then emit Stop_serial_timer s else s)"

text \<open>\<open>case MSG_TOGGLE\<close>: the result is \<open>None\<close> when the condition fails and the case ends
  in \<open>break\<close>.\<close>

definition on_toggle :: "int \<Rightarrow> DIALOG \<Rightarrow> nat \<Rightarrow> session \<Rightarrow> (DIALOG \<times> session) option" where
  "on_toggle c d k s =
     (if d1 d = c \<or> (c = - 2 \<and> \<not> D_DISABLED d) \<or> (c = - 1 \<and> D_DISABLED d) then
        (if D_DISABLED d then
           Some (d\<lparr>D_DISABLED := False\<rparr>,
                 set_screen_buf k ''N/A''
                   ((set_enabled k True s)
                      \<lparr>num_of_disabled_sensors := num_of_disabled_sensors s - 1\<rparr>))
         else
           (let s1 = set_screen_buf k ''not monitoring''
                       ((set_enabled k False s)
                          \<lparr>num_of_disabled_sensors := num_of_disabled_sensors s + 1\<rparr>)
            in Some (d\<lparr>D_DISABLED := True\<rparr>,
                     if num_of_disabled_sensors s1 = sensors_on_page s1
                     then s1\<lparr>num_of_sensors_timed_out := 0\<rparr> else s1)))
      else None)"

text \<open>\<open>case MSG_DRAW\<close>: a pending toggle is broadcast; the drawing itself changes no
  state.\<close>

definition on_draw :: "DIALOG \<Rightarrow> session \<Rightarrow> DIALOG \<times> session" where
  "on_draw d s =
     (if d2 d \<noteq> 0 then (d\<lparr>d2 := 0\<rparr>, emit (Broadcast MSG_TOGGLE (d1 d)) s) else (d, s))"


subsection \<open>\<open>case MSG_IDLE\<close>\<close>

text \<open>\<open>strcat(vehicle_response, buf)\<close> into the array of 512 bytes.\<close>

definition append_response :: "string \<Rightarrow> session \<Rightarrow> failure + session" where
  "append_response buf s =
     (if length (vehicle_response s @ buf) < 512
      then Inr (s\<lparr>vehicle_response := vehicle_response s @ buf\<rparr>)
      else Inl Overflow)"

text \<open>The decoding of a token found by \<open>find_valid_response\<close>:
  \<open>buf[4 + sensor->bytes * 2] = 0\<close>, then \<open>sensor->formula((int)strtol(buf + 4, 0, 16), buf)\<close>.
  The text that \<open>strtol\<close> reads starts at the fifth character of the token and ends at the
  terminator just written, or at the token's own end before it.\<close>

definition decode_response :: "measurement \<Rightarrow> SENSOR \<Rightarrow> string \<Rightarrow> failure + string" where
  "decode_response units sensor buf =
     (if length buf < 4 then Inl Stale_read
      else Inr (formula sensor units (strtol16 (take (bytes sensor * 2) (drop 4 buf)))))"

text \<open>The \<open>switch (response_type)\<close> of the exhausted retries; it has no \<open>default\<close>.\<close>

definition retry_alert :: "response_type \<Rightarrow> session \<Rightarrow> session" where
  "retry_alert response_type s =
     (if response_type = BUS_BUSY then
        emit (Alert [''OBD Bus Busy: could not read sensor'']) s
      else if response_type = DATA_ERROR \<or> response_type = DATA_ERROR2 then
        emit (Alert [''Data Error: there has been a loss of data.'',
                     ''You may have a bad connection to the vehicle,'',
                     ''check the cable.'']) s
      else if response_type = SERIAL_ERROR \<or> response_type = RUBBISH then
        emit (Alert [''Serial Link Error: please check connection'',
                     ''between computer and OBD interface.'']) s
      else s)"

text \<open>From \<open>strcpy(sensor->screen_buf, "N/A")\<close> after the \<open>HEX_DATA\<close> branch to the
  \<open>return D_REDRAWME\<close> that ends the handling of the prompt.\<close>

definition no_value :: "response_type \<Rightarrow> DIALOG \<Rightarrow> nat \<Rightarrow> session \<Rightarrow> dret \<times> DIALOG \<times> session" where
  "no_value response_type d k s =
     (let s1 = calculate_refresh_rate SENSOR_NA (set_screen_buf k ''N/A'' s) in
      if response_type = ERR_NO_DATA then
        (D_REDRAWME, d, (advance s1)\<lparr>retry_attempts := NUM_OF_RETRIES\<rparr>)
      else if response_type = BUS_ERROR then
        (D_REDRAWME, d,
         (emit (Alert [''Bus Error: OBDII bus is shorted to Vbatt or Ground.'']) s1)
           \<lparr>retry_attempts := NUM_OF_RETRIES\<rparr>)
      else if retry_attempts s1 > 0 then
        (D_O_K, d, s1\<lparr>retry_attempts := retry_attempts s1 - 1\<rparr>)
      else
        (D_REDRAWME, d, (retry_alert response_type s1)\<lparr>retry_attempts := NUM_OF_RETRIES\<rparr>))"

text \<open>The branch \<open>response_status == PROMPT\<close>.\<close>

definition on_prompt ::
  "externals \<Rightarrow> string \<Rightarrow> DIALOG \<Rightarrow> nat \<Rightarrow> session \<Rightarrow> failure + (dret \<times> DIALOG \<times> session)" where
  "on_prompt x buf d k s =
     (let s1 = emit Stop_serial_timer
                 (s\<lparr>device_connected := True, num_of_sensors_timed_out := 0,
                    receiving_response := False\<rparr>)
      in
      if new_page s1 then Inr (after_switch d k s1)
      else
        (case append_response buf s1 of
           Inl e \<Rightarrow> Inl e
         | Inr s2 \<Rightarrow>
             (let sensor = sensors s2 ! k;
                  (response_type, rewritten) =
                     process_response x (command sensor) (vehicle_response s2);
                  s3 = s2\<lparr>vehicle_response := rewritten\<rparr>
              in
              if response_type = HEX_DATA then
                (case find_valid_response (SPECIAL_DELIMITER x) rewritten of
                   None \<Rightarrow> Inl Hangs
                 | Some (found, token) \<Rightarrow>
                     if 80 \<le> length token then Inl Overflow
                     else if found then
                       (let s4 = calculate_refresh_rate SENSOR_ACTIVE s3 in
                        case decode_response (system_of_measurements s4) sensor token of
                          Inl e \<Rightarrow> Inl e
                        | Inr text \<Rightarrow>
                            Inr (D_REDRAWME, d,
                                 (advance (set_screen_buf k text s4))
                                   \<lparr>retry_attempts := NUM_OF_RETRIES\<rparr>))
                     else Inr (no_value ERR_NO_DATA d k s3))
              else Inr (no_value response_type d k s3))))"

text \<open>The loop \<open>while (comport.status == NOT_OPEN)\<close>: each round asks the user, so the
  recursion is on the answers; with no answer left the call never returns.\<close>

fun port_not_ready :: "(int \<times> port_status \<times> measurement) list \<Rightarrow> session \<Rightarrow> session option" where
  "port_not_ready [] s = (if comport_status s = NOT_OPEN then None else Some s)"
| "port_not_ready (a # answers) s =
     (if comport_status s = NOT_OPEN then
        (let s1 = emit (Alert [''Port is not ready.'',
                               ''Please check that you specified the correct port'',
                               ''and that no other application is using it'']) s
         in if fst a = 1 then port_not_ready answers (display_options (snd a) s1)
            else port_not_ready answers (s1\<lparr>comport_status := USER_IGNORED\<rparr>))
      else Some s)"

text \<open>The block \<open>if (serial_time_out)\<close>, first part: the display, the counting of
  consecutive time-outs and the three-button alert.\<close>

definition count_time_out :: "externals \<Rightarrow> nat \<Rightarrow> session \<Rightarrow> session" where
  "count_time_out x k s =
     (let s1 = set_screen_buf k ''N/A'' (s\<lparr>receiving_response := False\<rparr>) in
      if num_of_sensors_timed_out s1 \<ge> SENSORS_TO_TIME_OUT then
        (let s' = s1\<lparr>num_of_sensors_timed_out := 0, device_connected := False\<rparr> in
         if \<not> ignore_device_not_connected s' then
           (let s'' = emit (Alert3 [''Device is not responding.'',
                                   ''Please check that it is connected'',
                                   ''and the port settings are correct'']) s'
            in if alert3_choice x = 2 then display_options (options_result x) s''
               else if alert3_choice x = 3 then s''\<lparr>ignore_device_not_connected := True\<rparr>
               else s'')
         else s')
      else s1\<lparr>num_of_sensors_timed_out := num_of_sensors_timed_out s1 + 1\<rparr>)"

text \<open>Second part: the port loop, \<open>stop_serial_timer()\<close>, the step to the next sensor and
  \<open>return D_REDRAWME\<close>.\<close>

definition on_time_out ::
  "externals \<Rightarrow> DIALOG \<Rightarrow> nat \<Rightarrow> session \<Rightarrow> failure + (dret \<times> DIALOG \<times> session)" where
  "on_time_out x d k s =
     (case port_not_ready (port_answers x) (count_time_out x k s) of
        None \<Rightarrow> Inl Port_loop
      | Some s3 \<Rightarrow> Inr (D_REDRAWME, d, advance (emit Stop_serial_timer s3)))"

text \<open>The end of \<open>case MSG_IDLE\<close>: the time-out block, or the \<open>break\<close> and the statements
  after the \<open>switch\<close>.\<close>

definition idle_tail ::
  "externals \<Rightarrow> DIALOG \<Rightarrow> nat \<Rightarrow> session \<Rightarrow> failure + (dret \<times> DIALOG \<times> session)" where
  "idle_tail x d k s =
     (if serial_time_out x then on_time_out x d k s else Inr (after_switch d k s))"

text \<open>\<open>case MSG_IDLE\<close> for a control with a sensor (index \<open>k\<close>).\<close>

definition on_idle ::
  "externals \<Rightarrow> DIALOG \<Rightarrow> nat \<Rightarrow> session \<Rightarrow> failure + (dret \<times> DIALOG \<times> session)" where
  "on_idle x d k s =
     (if d1 d = current_sensor s then
        (if comport_status s = READY then
           (let s1 = (if D_DISABLED d then calculate_refresh_rate SENSOR_OFF s else s) in
            if \<not> receiving_response s1 then
              (if D_DISABLED d then
                 Inr (D_O_K, d, (advance s1)\<lparr>receiving_response := False\<rparr>)
               else
                 idle_tail x d k
                   ((emit Start_serial_timer
                       ((emit (Send_command (command (sensors s1 ! k))) s1)
                          \<lparr>new_page := False, receiving_response := True\<rparr>))
                      \<lparr>vehicle_response := []\<rparr>))
            else
              (let (response_status, buf) = read_comport x in
               if D_DISABLED d then Inr (D_O_K, d, advance s1)
               else if response_status = DATA then
                 (case append_response buf s1 of
                    Inl e \<Rightarrow> Inl e
                  | Inr s2 \<Rightarrow> idle_tail x d k s2)
               else if response_status = PROMPT then on_prompt x buf d k s1
               else idle_tail x d k s1))
         else idle_tail x d k s)
      else Inr (after_switch d k s))"

text \<open>\<open>sensor_proc(msg, d, c)\<close>.\<close>

definition sensor_proc ::
  "externals \<Rightarrow> msg \<Rightarrow> DIALOG \<Rightarrow> int \<Rightarrow> session \<Rightarrow> failure + (dret \<times> DIALOG \<times> session)" where
  "sensor_proc x msg d c s =
     (if msg = MSG_IDLE \<and> reset_hardware s then
        Inr (D_O_K, d, emit Reset_chip (s\<lparr>reset_hardware := False, receiving_response := False\<rparr>))
      else
        (case dp3 d of
           None \<Rightarrow>
             (if msg \<noteq> MSG_DRAW then Inr (D_O_K, d, s)
              else (let (da, sa) = on_draw d s in Inr (D_O_K, da, sa)))
         | Some k \<Rightarrow>
             (case msg of
                MSG_START \<Rightarrow> (let (da, sa) = on_start d k s in Inr (after_switch da k sa))
              | MSG_UPDATE \<Rightarrow> (let (da, sa) = on_update d k s in Inr (after_switch da k sa))
              | MSG_END \<Rightarrow> (let (da, sa) = on_end d s in Inr (after_switch da k sa))
              | MSG_TOGGLE \<Rightarrow>
                  (case on_toggle c d k s of
                     Some (da, sa) \<Rightarrow> Inr (D_REDRAWME, da, sa)
                   | None \<Rightarrow> Inr (after_switch d k s))
              | MSG_DRAW \<Rightarrow> (let (da, sa) = on_draw d s in Inr (D_O_K, da, sa))
              | MSG_IDLE \<Rightarrow> on_idle x d k s
              | MSG_REFRESH \<Rightarrow> Inr (after_switch d k s))))"

section \<open>\<open>toggle_proc\<close>, \<open>fill_sensors\<close> and the page flip\<close>

text \<open>\<open>case MSG_UPDATE\<close> of \<open>toggle_proc\<close>; \<open>empty_string\<close> is a global of another file and
  is taken to be the empty string.\<close>

definition toggle_update :: "DIALOG \<Rightarrow> session \<Rightarrow> DIALOG \<times> session" where
  "toggle_update d s =
     (if d1 d \<ge> sensors_on_page s then
        (d\<lparr>D_DISABLED := True, D_DIRTY := True, dp := []\<rparr>,
         if d2 d = 0 then s\<lparr>num_of_disabled_sensors := num_of_disabled_sensors s - 1\<rparr> else s)
      else
        (d\<lparr>D_DISABLED := False, D_DIRTY := True, dp := (if d2 d = 1 then ''ON'' else ''OFF'')\<rparr>,
         if D_DISABLED d \<and> d2 d = 0
         then s\<lparr>num_of_disabled_sensors := num_of_disabled_sensors s + 1\<rparr> else s))"

text \<open>\<open>case MSG_TOGGLE\<close> of \<open>toggle_proc\<close>: only the button changes.\<close>

definition toggle_toggle :: "int \<Rightarrow> DIALOG \<Rightarrow> DIALOG" where
  "toggle_toggle c d =
     (if (c = d1 d \<or> (c = - 2 \<and> d2 d = 1) \<or> (c = - 1 \<and> d2 d = 0)) \<and> \<not> D_DISABLED d then
        (if d2 d = 0 then d\<lparr>d2 := 1, dp := ''ON''\<rparr> else d\<lparr>d2 := 0, dp := ''OFF''\<rparr>)
      else d)"

text \<open>
  The dialog is the list of its nine rows, each a toggle button and the sensor control that
  follows it in \<open>sensor_dialog[]\<close>. \<open>fill_sensors\<close> walks the sensor controls in this order
  with its running \<open>index\<close>. A row of \<open>sensors[]\<close> has a formula exactly when its position
  is below the length of the list (at the length stands the terminating row).
\<close>

fun fill_loop :: "int \<Rightarrow> int \<Rightarrow> (DIALOG \<times> DIALOG) list \<Rightarrow> session
    \<Rightarrow> (DIALOG \<times> DIALOG) list \<times> int \<times> session" where
  "fill_loop page_number index [] s = ([], index, s)"
| "fill_loop page_number index ((t, d) # rows) s =
     (let i = index + page_number * SENSORS_PER_PAGE in
      if 0 \<le> i \<and> i < int (length (sensors s)) then
        (let (rows', n, s') =
               fill_loop page_number (index + 1) rows (set_screen_buf (nat i) ''N/A'' s)
         in ((t, d\<lparr>dp3 := Some (nat i)\<rparr>) # rows', n, s'))
      else
        (let (rows', n, s') = fill_loop page_number index rows s
         in ((t, d\<lparr>dp3 := None, D_DIRTY := True\<rparr>) # rows', n, s')))"

definition fill_sensors :: "int \<Rightarrow> (DIALOG \<times> DIALOG) list \<Rightarrow> session
    \<Rightarrow> (DIALOG \<times> DIALOG) list \<times> session" where
  "fill_sensors page_number rows s =
     (let (rows', n, s') = fill_loop page_number 0 rows s
      in (rows', s'\<lparr>sensors_on_page := n\<rparr>))"

text \<open>\<open>broadcast_dialog_message(MSG_UPDATE, 0)\<close>, as far as it reaches the toggle buttons
  and the sensor controls; the other procedures of the dialog change only their own
  control. On \<open>MSG_UPDATE\<close> the sensor control cannot fail, so the result is total.\<close>

definition sensor_update :: "DIALOG \<Rightarrow> session \<Rightarrow> DIALOG \<times> session" where
  "sensor_update d s =
     (case dp3 d of
        None \<Rightarrow> (d, s)
      | Some k \<Rightarrow> (let (da, sa) = on_update d k s; (r, db, sb) = after_switch da k sa in (db, sb)))"

fun broadcast_update :: "(DIALOG \<times> DIALOG) list \<Rightarrow> session \<Rightarrow> (DIALOG \<times> DIALOG) list \<times> session" where
  "broadcast_update [] s = ([], s)"
| "broadcast_update ((t, d) # rows) s =
     (let (t', s1) = toggle_update t s;
          (d', s2) = sensor_update d s1;
          (rows', s3) = broadcast_update rows s2
      in ((t', d') # rows', s3))"

text \<open>\<open>broadcast_dialog_message(MSG_TOGGLE, c)\<close>, which \<open>toggle_proc\<close> sends with the number
  of its button when the button is pressed, and \<open>sensor_proc\<close> with the number of its control
  when it draws a control with \<open>d2\<close> set. Every toggle button and every sensor control
  receives it, in the order of \<open>sensor_dialog[]\<close>; the other procedures of the dialog write
  neither \<open>sensors[]\<close> nor these controls. \<open>sensor_toggle\<close> is \<open>sensor_proc\<close> on \<open>MSG_TOGGLE\<close>,
  which cannot fail: the case itself for the control that is addressed, and for every
  other control the \<open>break\<close> and the statements after the \<open>switch\<close>.\<close>

definition sensor_toggle :: "int \<Rightarrow> DIALOG \<Rightarrow> session \<Rightarrow> DIALOG \<times> session" where
  "sensor_toggle c d s =
     (case dp3 d of
        None \<Rightarrow> (d, s)
      | Some k \<Rightarrow>
          (case on_toggle c d k s of
             Some (da, sa) \<Rightarrow> (da, sa)
           | None \<Rightarrow> (let (r, db, sb) = after_switch d k s in (db, sb))))"

fun broadcast_toggle :: "int \<Rightarrow> (DIALOG \<times> DIALOG) list \<Rightarrow> session
    \<Rightarrow> (DIALOG \<times> DIALOG) list \<times> session" where
  "broadcast_toggle c [] s = ([], s)"
| "broadcast_toggle c ((t, d) # rows) s =
     (let (d', s1) = sensor_toggle c d s;
          (rows', s2) = broadcast_toggle c rows s1
      in ((toggle_toggle c t, d') # rows', s2))"

text \<open>\<open>options_proc\<close> when its button is pressed: \<open>display_options()\<close>, with what the user
  leaves in the options dialog.\<close>

definition options_proc :: "port_status \<times> measurement \<Rightarrow> session \<Rightarrow> session" where
  "options_proc r s = display_options r s"

text \<open>The local \<open>last_page\<close> of \<open>page_flipper_proc\<close>; the number of sensors is not
  negative, so the division and remainder of C are those of HOL.\<close>

definition last_page :: "session \<Rightarrow> int" where
  "last_page s =
     (if num_of_sensors s mod SENSORS_PER_PAGE \<noteq> 0
      then num_of_sensors s div SENSORS_PER_PAGE
      else num_of_sensors s div SENSORS_PER_PAGE - 1)"

text \<open>The branch \<open>ret == D_CLOSE\<close> of \<open>page_flipper_proc\<close> for the button with \<open>d1 = dir\<close>
  (\<open>-1\<close> is "Previous", \<open>1\<close> is "Next").\<close>

definition page_flip :: "int \<Rightarrow> (DIALOG \<times> DIALOG) list \<Rightarrow> session
    \<Rightarrow> (DIALOG \<times> DIALOG) list \<times> session" where
  "page_flip dir rows s =
     (let p = (if dir = - 1 then current_page s - 1
               else if dir = 1 then current_page s + 1 else current_page s);
          p' = (if p < 0 then 0 else if p > last_page s then last_page s else p);
          (rows1, s1) = fill_sensors p' rows (s\<lparr>current_page := p'\<rparr>)
      in broadcast_update rows1 s1)"


section \<open>Concrete sessions\<close>

text \<open>The values that the initialisers of the file give to its variables, for a given
  table of sensors; the port is taken to be open.\<close>

definition start_session :: "SENSOR list \<Rightarrow> session" where
  "start_session table =
     \<lparr>device_connected = False, reset_hardware = True, num_of_sensors = 0,
      num_of_disabled_sensors = 0, sensors_on_page = 0, current_page = 0,
      inst_refresh_rate = Fin 0, avg_refresh_rate = Fin 0, refresh_time = 0,
      sensors = table,
      initialization_occured = False, num_of_sensors_off = 0,
      reset_on_all_off_occured = False, sensors_on_counter = 0,
      avg_refresh_rate_accumulator = Fin 0,
      current_sensor = 0, new_page = False, receiving_response = False,
      num_of_sensors_timed_out = 0, ignore_device_not_connected = False,
      retry_attempts = NUM_OF_RETRIES, vehicle_response = [],
      comport_status = READY, system_of_measurements = METRIC, trace = []\<rparr>"

text \<open>A page of nine sensors, all of them switched off, after the estimator has seen its
  first response and has measured 2 Hz.\<close>

definition all_off_session :: session where
  "all_off_session =
     (start_session
        (replicate 9 (engine_rpm_sensor\<lparr>enabled := False, screen_buf := ''not monitoring''\<rparr>)))
       \<lparr>reset_hardware := False, num_of_sensors := 9, sensors_on_page := 9,
        num_of_disabled_sensors := 9, initialization_occured := True,
        inst_refresh_rate := Fin 2, avg_refresh_rate := Fin 2\<rparr>"

text \<open>A page of nine enabled sensors before the first response.\<close>

definition fresh_page :: session where
  "fresh_page =
     (start_session (replicate 9 engine_rpm_sensor))
       \<lparr>reset_hardware := False, num_of_sensors := 9, sensors_on_page := 9\<rparr>"

text \<open>Successive \<open>ACTIVE\<close> completions reported to the estimator, each after the given
  number of ticks of the timer.\<close>

fun active_completions :: "nat list \<Rightarrow> session \<Rightarrow> session" where
  "active_completions [] s = s"
| "active_completions (n # ns) s =
     active_completions ns (calculate_refresh_rate SENSOR_ACTIVE ((inc_refresh_time ^^ n) s))"

text \<open>The same page with a request outstanding and \<open>n\<close> retries left.\<close>

definition awaiting :: "int \<Rightarrow> session" where
  "awaiting n = fresh_page\<lparr>receiving_response := True, retry_attempts := n\<rparr>"

text \<open>A table of eleven sensors (a full page and a page of two) in the middle of polling the
  first page: the cursor is on the fifth control, one retry is left, two requests have
  timed out, and the estimator has measured 2 Hz.\<close>

definition mid_poll :: session where
  "mid_poll =
     (start_session (replicate 11 engine_rpm_sensor))
       \<lparr>reset_hardware := False, num_of_sensors := 11, sensors_on_page := 9,
        current_sensor := 4, retry_attempts := 1, num_of_sensors_timed_out := 2,
        initialization_occured := True, inst_refresh_rate := Fin 2, avg_refresh_rate := Fin 2,
        refresh_time := 37, device_connected := True\<rparr>"

text \<open>The sensor control and the toggle button of row \<open>i\<close> as \<open>MSG_START\<close> leaves them and
  \<open>fill_sensors(0)\<close> fills them.\<close>

definition control :: "nat \<Rightarrow> DIALOG" where
  "control i = \<lparr>d1 = int i, d2 = 0, D_DISABLED = False, D_DIRTY = True, dp = [], dp3 = Some i\<rparr>"

definition button :: "nat \<Rightarrow> DIALOG" where
  "button i = \<lparr>d1 = int i, d2 = 1, D_DISABLED = False, D_DIRTY = True, dp = ''ON'', dp3 = None\<rparr>"

text \<open>The sensor control of row \<open>i\<close> after its sensor has been switched off.\<close>

definition off_control :: "nat \<Rightarrow> DIALOG" where
  "off_control i = (control i)\<lparr>D_DISABLED := True\<rparr>"

text \<open>The rows of the dialog after the first.\<close>

definition later_rows :: "(DIALOG \<times> DIALOG) list" where
  "later_rows = map (\<lambda>i. (button i, control i)) [1..<9]"

text \<open>All nine rows.\<close>

definition page_of_nine :: "(DIALOG \<times> DIALOG) list" where
  "page_of_nine = (button 0, control 0) # later_rows"

text \<open>The collaborators during a call in which nothing arrives and no timer expires (the
  call that sends the command), and during a call in which the prompt arrives and
  \<open>process_response\<close> classifies the response as \<open>kind\<close>.\<close>

definition quiet :: externals where
  "quiet = \<lparr>SPECIAL_DELIMITER = CHR 0x09, read_comport = (EMPTY, []),
            process_response = (\<lambda>cmd response. (RUBBISH, response)),
            serial_time_out = False, alert3_choice = 1,
            options_result = (READY, METRIC), port_answers = []\<rparr>"

definition prompt_with :: "response_type \<Rightarrow> string \<Rightarrow> externals" where
  "prompt_with kind text =
     quiet\<lparr>read_comport := (PROMPT, text), process_response := (\<lambda>cmd response. (kind, response))\<rparr>"

text \<open>The collaborators during a call that finds the request timer expired; \<open>choice\<close> is
  the button the user presses if the three-button alert appears.\<close>

definition timed_out :: "int \<Rightarrow> externals" where
  "timed_out choice = quiet\<lparr>serial_time_out := True, alert3_choice := choice\<rparr>"

text \<open>The collaborators during a call that finds the request timer expired while the port
  is not open, when the user answers the "Port is not ready" alert with "Ignore".\<close>

definition timed_out_port_ignored :: externals where
  "timed_out_port_ignored = (timed_out 1)\<lparr>port_answers := [(2, (NOT_OPEN, METRIC))]\<rparr>"

section \<open>The payload as the specification words it\<close>

text \<open>"Parsed as a big-endian hex integer": the digits weighted by powers of 16, the first
  digit the most significant. This definition follows the specification, not the code; the
  code's \<open>strtol16\<close> is compared with it.\<close>

definition hex_value :: "string \<Rightarrow> nat" where
  "hex_value s = foldl (\<lambda>a c. 16 * a + (case hex_digit c of Some v \<Rightarrow> v | None \<Rightarrow> 0)) 0 s"

definition is_hex :: "char \<Rightarrow> bool" where
  "is_hex c = (hex_digit c \<noteq> None)"

section \<open>Observations on a session\<close>

text \<open>The alerts among the events of a trace: the one-button alerts, and the three-button
  "Device is not responding" alert.\<close>

fun is_alert :: "event \<Rightarrow> bool" where
  "is_alert (Alert text) = True"
| "is_alert _ = False"

fun is_alert3 :: "event \<Rightarrow> bool" where
  "is_alert3 (Alert3 text) = True"
| "is_alert3 _ = False"

definition device_alert :: event where
  "device_alert =
     Alert3 [''Device is not responding.'', ''Please check that it is connected'',
             ''and the port settings are correct'']"

definition alerts :: "session \<Rightarrow> event list" where
  "alerts s = filter is_alert (trace s)"

definition alert3s :: "session \<Rightarrow> event list" where
  "alert3s s = filter is_alert3 (trace s)"

text \<open>Successive \<open>MSG_IDLE\<close> calls of \<open>sensor_proc\<close>, each with the control it is sent to and
  with what the collaborators supply during that call.\<close>

fun idle_calls :: "(externals \<times> DIALOG) list \<Rightarrow> session \<Rightarrow> failure + session" where
  "idle_calls [] s = Inr s"
| "idle_calls ((x, d) # rest) s =
     (case sensor_proc x MSG_IDLE d 0 s of
        Inl e \<Rightarrow> Inl e
      | Inr (r, d', s') \<Rightarrow> idle_calls rest s')"

text \<open>The calls of \<open>sensor_proc(MSG_IDLE)\<close> that come to the block \<open>if (serial_time_out)\<close>
  with the flag set: no reset of the chip is pending, the control is the one of the
  current sensor, and either the port is not ready, or the control is enabled and this
  call has sent the command, has read nothing, or has read data that fit into the
  buffer.\<close>

definition reaches_time_out :: "externals \<Rightarrow> DIALOG \<Rightarrow> session \<Rightarrow> bool" where
  "reaches_time_out x d s =
     (serial_time_out x \<and> d1 d = current_sensor s \<and> \<not> reset_hardware s \<and>
      (comport_status s \<noteq> READY
       \<or> (comport_status s = READY \<and> \<not> D_DISABLED d
          \<and> (\<not> receiving_response s
             \<or> fst (read_comport x) = EMPTY
             \<or> (fst (read_comport x) = DATA
                \<and> length (vehicle_response s @ snd (read_comport x)) < 512)))))"

text \<open>The "Port is not ready" loop ends: the user presses "Ignore" at some point, or the
  port is not in the state \<open>NOT_OPEN\<close> when the loop is reached (it is not so at the start,
  and the options dialog of the three-button alert, if it is shown, does not leave it so).\<close>

definition user_leaves_port_loop :: "externals \<Rightarrow> session \<Rightarrow> bool" where
  "user_leaves_port_loop x s =
     (list_ex (\<lambda>a. fst a \<noteq> 1) (port_answers x)
      \<or> (comport_status s \<noteq> NOT_OPEN
         \<and> (alert3_choice x = 2 \<and> SENSORS_TO_TIME_OUT \<le> num_of_sensors_timed_out s
              \<and> \<not> ignore_device_not_connected s
            \<longrightarrow> fst (options_result x) \<noteq> NOT_OPEN)))"

text \<open>Two sessions that differ at most in what the port loop writes.\<close>

definition port_frame :: "session \<Rightarrow> session \<Rightarrow> bool" where
  "port_frame s s' =
     (s' = s\<lparr>trace := trace s', comport_status := comport_status s',
            system_of_measurements := system_of_measurements s'\<rparr>
      \<and> filter is_alert3 (trace s') = filter is_alert3 (trace s)
      \<and> comport_status s' \<noteq> NOT_OPEN)"

text \<open>A floating-point value that is finite and differs from the number \<open>x\<close> by at most
  the fraction \<open>eps\<close> of \<open>x\<close>; and the numbers in the range of the normal \<open>float\<close>s, where
  one rounding costs at most the fraction \<open>2^-24\<close>.\<close>

definition close_to :: "rat \<Rightarrow> cfloat \<Rightarrow> rat \<Rightarrow> bool" where
  "close_to eps f x = (case f of Fin y \<Rightarrow> (\<bar>y - x\<bar> \<le> eps * \<bar>x\<bar>) | _ \<Rightarrow> False)"


text \<open>The sensors that the controls of the dialog point to, in the order of the rows; and
  the dialog as \<open>sensor_dialog[]\<close> and \<open>fill_sensors\<close> make it: the sensor controls carry
  different numbers, none of them negative, and point to different rows of \<open>sensors[]\<close>.\<close>

definition owned :: "(DIALOG \<times> DIALOG) list \<Rightarrow> nat list" where
  "owned rows = concat (map (\<lambda>r. case dp3 (snd r) of None \<Rightarrow> [] | Some k \<Rightarrow> [k]) rows)"

definition page_rows :: "(DIALOG \<times> DIALOG) list \<Rightarrow> session \<Rightarrow> bool" where
  "page_rows rows s =
     (distinct (map (\<lambda>r. d1 (snd r)) rows) \<and> list_all (\<lambda>r. 0 \<le> d1 (snd r)) rows
      \<and> distinct (owned rows) \<and> list_all (\<lambda>k. k < length (sensors s)) (owned rows))"

text \<open>What a page flip resets.\<close>

definition page_reset :: "session \<Rightarrow> bool" where
  "page_reset s =
     (current_sensor s = 0 \<and> num_of_sensors_timed_out s = 0 \<and> new_page s
      \<and> inst_refresh_rate s = Fin 0 \<and> avg_refresh_rate s = Fin 0 \<and> refresh_time s = 0)"

text \<open>One exchange on the first control: the call that sends the command, then the call in
  which the prompt arrives and the response is classified as \<open>kind\<close>.\<close>

definition exchange :: "response_type \<Rightarrow> (externals \<times> DIALOG) list" where
  "exchange kind = [(quiet, control 0), (prompt_with kind ''?>'', control 0)]"

text \<open>A request to the sensor of control \<open>i\<close> that times out: the call that sends the
  command, then the call that finds the timer expired.\<close>

definition silence :: "int \<Rightarrow> nat \<Rightarrow> (externals \<times> DIALOG) list" where
  "silence choice i = [(quiet, control i), (timed_out choice, control i)]"

section \<open>Properties of the response scanner\<close>

lemma copy_response_takeWhile: "copy_response delim s = takeWhile (\<lambda>c. c \<noteq> delim) s"
  by (induction s) auto

lemma skip_to_delimiter_dropWhile:
  "skip_to_delimiter delim s = dropWhile (\<lambda>c. c \<noteq> delim) s"
  by (induction s) auto

lemma skip_to_delimiter_idem:
  "skip_to_delimiter delim (skip_to_delimiter delim s) = skip_to_delimiter delim s"
  by (induction s) auto

lemma skip_to_delimiter_stops_at:
  "delim \<in> set s \<Longrightarrow> skip_to_delimiter delim s \<noteq> [] \<and> hd (skip_to_delimiter delim s) = delim"
  by (induction s) auto

lemma skip_to_delimiter_end: "delim \<notin> set s \<Longrightarrow> skip_to_delimiter delim s = []"
  by (induction s) auto

lemma is_valid_start_hd: "is_valid_start s \<Longrightarrow> hd s = CHR ''4''"
  by (cases s rule: is_valid_start.cases) auto

text \<open>A text that is not a valid start and that the skipping loop does not shorten is a
  fixed point of the outer loop: no number of rounds produces a result.\<close>

lemma scan_response_result_not_stuck:
  assumes "scan_response delim inp = Some y"
  shows "\<not> (inp \<noteq> [] \<and> \<not> is_valid_start inp \<and> skip_to_delimiter delim inp = inp)"
proof (rule scan_response.raw_induct
    [where P = "\<lambda>d i r. \<not> (i \<noteq> [] \<and> \<not> is_valid_start i \<and> skip_to_delimiter d i = i)",
     OF _ assms])
  fix scan d i r
  assume IH: "\<And>d' i' r'. scan d' i' = Some r' \<Longrightarrow>
      \<not> (i' \<noteq> [] \<and> \<not> is_valid_start i' \<and> skip_to_delimiter d' i' = i')"
    and eq: "(if i = [] then Some []
      else if is_valid_start i then Some (copy_response d i)
           else scan d (skip_to_delimiter d i)) = Some r"
  show "\<not> (i \<noteq> [] \<and> \<not> is_valid_start i \<and> skip_to_delimiter d i = i)"
  proof
    assume st: "i \<noteq> [] \<and> \<not> is_valid_start i \<and> skip_to_delimiter d i = i"
    with eq have "scan d i = Some r" by simp
    from IH[OF this] st show False by simp
  qed
qed

lemma scan_response_stuck:
  assumes "inp \<noteq> []" "\<not> is_valid_start inp" "skip_to_delimiter delim inp = inp"
  shows "scan_response delim inp = None"
proof (cases "scan_response delim inp")
  case None
  then show ?thesis .
next
  case (Some y)
  from scan_response_result_not_stuck[OF this] assms show ?thesis by simp
qed

text \<open>The scanner on every input, for a delimiter other than the digit 4: a response that
  starts with "41" yields its first token; a response with no delimiter yields nothing;
  every other response (one that holds a delimiter and does not start with "41") makes the
  loop run forever, because the pointer is never moved past the delimiter.\<close>

lemma scan_response_valid:
  "is_valid_start inp \<Longrightarrow> scan_response delim inp = Some (copy_response delim inp)"
  by (subst scan_response.simps) auto

lemma scan_response_no_delimiter:
  assumes "delim \<notin> set inp" "\<not> is_valid_start inp"
  shows "scan_response delim inp = Some []"
proof -
  have "skip_to_delimiter delim inp = []"
    using assms(1) by (rule skip_to_delimiter_end)
  then show ?thesis
    using assms(2) by (subst scan_response.simps) (simp add: scan_response.simps)
qed

lemma scan_response_diverges:
  assumes "delim \<noteq> CHR ''4''" "delim \<in> set inp" "\<not> is_valid_start inp"
  shows "scan_response delim inp = None"
proof -
  let ?r = "skip_to_delimiter delim inp"
  from skip_to_delimiter_stops_at[OF assms(2)] have ne: "?r \<noteq> []" and h: "hd ?r = delim"
    by simp_all
  from h assms(1) have nv: "\<not> is_valid_start ?r"
    using is_valid_start_hd by metis
  have "scan_response delim ?r = None"
    using ne nv skip_to_delimiter_idem by (rule scan_response_stuck)
  moreover have "inp \<noteq> []"
    using assms(2) by auto
  ultimately show ?thesis
    using assms(3) by (subst scan_response.simps) simp
qed

lemma find_valid_response_returns_iff:
  assumes "delim \<noteq> CHR ''4''"
  shows "(find_valid_response delim inp \<noteq> None) = (is_valid_start inp \<or> delim \<notin> set inp)"
  using assms scan_response_valid[of inp delim] scan_response_no_delimiter[of delim inp]
    scan_response_diverges[of delim inp]
  by (auto simp: find_valid_response_def)

text \<open>
  Claim C3. The scanner is to skip any preamble before a token that begins with "41" and
  to return that token, in particular "41 0C 1A F8" on the input
  "ELM327\<open>\r\<close>BUS INIT: OK\<open>\r\<close>41 0C 1A F8\<open>\r\<close>>" with the carriage return as delimiter.
  On this input the code does not return: after the first token "ELM327" the pointer
  rests on the carriage return, and every further round of the outer loop leaves it there.
\<close>

theorem find_valid_response_preamble_hangs:
  "find_valid_response (CHR 0x0D)
     (''ELM327'' @ [CHR 0x0D] @ ''BUS INIT: OK'' @ [CHR 0x0D] @ ''41 0C 1A F8'' @ [CHR 0x0D] @ ''>'')
   = None"
  unfolding find_valid_response_def by (simp add: scan_response_diverges)

text \<open>
  Claim C10. The scanner is to terminate on every input, in particular when a delimiter
  comes before any token that begins with "41". With the tab as delimiter and the response
  "7F0112", tab, "410C1AF8" the loop does not terminate; the same holds for the response
  that is the delimiter alone.
\<close>

theorem find_valid_response_not_total:
  "find_valid_response (CHR 0x09) (''7F0112'' @ [CHR 0x09] @ ''410C1AF8'') = None
   \<and> find_valid_response (CHR 0x09) [CHR 0x09] = None"
  unfolding find_valid_response_def by (simp add: scan_response_diverges)

section \<open>Properties of the floating-point arithmetic\<close>

subsection \<open>Rounding\<close>

text \<open>The exponent that \<open>floor_log2\<close> computes, the error of one rounding in the normal
  range, and the numbers that are rounded to themselves.\<close>

lemma bitlen_pos_bounds:
  assumes "0 < (n::int)"
  shows "(2::rat) powi (bitlen n - 1) \<le> of_int n" "of_int n < (2::rat) powi (bitlen n)"
proof -
  from bitlen_bounds[OF assms] have a: "2 ^ nat (bitlen n - 1) \<le> n" and b: "n < 2 ^ nat (bitlen n)"
    by simp_all
  have p: "1 \<le> bitlen n"
    using assms by (simp add: bitlen_alt_def)
  have "(2::rat) powi (bitlen n - 1) = 2 ^ nat (bitlen n - 1)"
    using p by (simp add: power_int_def)
  also have "\<dots> = of_int (2 ^ nat (bitlen n - 1))" by simp
  also have "\<dots> \<le> of_int n" using a by (simp only: of_int_le_iff)
  finally show "(2::rat) powi (bitlen n - 1) \<le> of_int n" .
  have "of_int n < (of_int (2 ^ nat (bitlen n)) :: rat)" using b by (simp only: of_int_less_iff)
  also have "\<dots> = 2 powi (bitlen n)" using p by (simp add: power_int_def)
  finally show "of_int n < (2::rat) powi (bitlen n)" .
qed

lemma floor_log2_bounds:
  assumes "0 < x"
  shows "2 powi (floor_log2 x) \<le> x" "x < 2 powi (floor_log2 x + 1)"
proof -
  show "2 powi (floor_log2 x) \<le> x"
  proof (cases "1 \<le> x")
    case True
    then have n: "0 < \<lfloor>x\<rfloor>" by simp
    have "2 powi (bitlen \<lfloor>x\<rfloor> - 1) \<le> (of_int \<lfloor>x\<rfloor> :: rat)" using bitlen_pos_bounds(1)[OF n] .
    also have "\<dots> \<le> x" by simp
    finally show ?thesis using True by (simp add: floor_log2_def)
  next
    case False
    with assms have r: "1 < 1 / x" by simp
    define m where "m = \<lceil>1 / x\<rceil> - 1"
    have m: "0 < m" "of_int m < 1 / x" "1 / x \<le> of_int m + 1"
      using r unfolding m_def by (simp_all add: less_ceiling_iff) (linarith)+
    have "1 / x \<le> of_int (m + 1)" using m(3) by simp
    also have "of_int (m + 1) \<le> (2::rat) powi (bitlen m)"
    proof -
      from bitlen_bounds[OF m(1)] have "m + 1 \<le> 2 ^ nat (bitlen m)" by simp
      then have "(of_int (m + 1) :: rat) \<le> of_int (2 ^ nat (bitlen m))" by (simp only: of_int_le_iff)
      also have "\<dots> = 2 powi (bitlen m)" using bitlen_nonneg[of m] by (simp add: power_int_def)
      finally show ?thesis .
    qed
    finally have "1 / x \<le> 2 powi (bitlen m)" .
    then have "1 / (2 powi (bitlen m)) \<le> x"
      using assms by (simp add: field_simps)
    then show ?thesis using False by (simp add: floor_log2_def m_def power_int_minus_divide)
  qed
  show "x < 2 powi (floor_log2 x + 1)"
  proof (cases "1 \<le> x")
    case True
    then have n: "0 < \<lfloor>x\<rfloor>" by simp
    have "x < of_int (\<lfloor>x\<rfloor> + 1)" by linarith
    also have "\<dots> \<le> 2 powi (bitlen \<lfloor>x\<rfloor>)"
    proof -
      from bitlen_bounds[OF n] have "\<lfloor>x\<rfloor> + 1 \<le> 2 ^ nat (bitlen \<lfloor>x\<rfloor>)" by simp
      then have "(of_int (\<lfloor>x\<rfloor> + 1) :: rat) \<le> of_int (2 ^ nat (bitlen \<lfloor>x\<rfloor>))" by (simp only: of_int_le_iff)
      also have "\<dots> = 2 powi (bitlen \<lfloor>x\<rfloor>)" using bitlen_nonneg[of "\<lfloor>x\<rfloor>"] by (simp add: power_int_def)
      finally show ?thesis .
    qed
    finally show ?thesis using True by (simp add: floor_log2_def)
  next
    case False
    with assms have r: "1 < 1 / x" by simp
    define m where "m = \<lceil>1 / x\<rceil> - 1"
    have m: "0 < m" "of_int m < 1 / x" "1 / x \<le> of_int m + 1"
      using r unfolding m_def by (simp_all add: less_ceiling_iff) (linarith)+
    have "(2::rat) powi (bitlen m - 1) \<le> of_int m" using bitlen_pos_bounds(1)[OF m(1)] .
    also have "\<dots> < 1 / x" using m(2) .
    finally have "2 powi (bitlen m - 1) < 1 / x" .
    moreover have "(0::rat) < 2 powi (bitlen m - 1)" by (simp add: power_int_def)
    ultimately have "x < 1 / (2 powi (bitlen m - 1))"
      using assms by (simp add: field_simps)
    also have "\<dots> = 2 powi (- bitlen m + 1)"
      using power_int_minus_divide[of "2::rat" "bitlen m - 1"] by simp
    finally show ?thesis using False by (simp add: floor_log2_def m_def)
  qed
qed

lemma round_half_even_error: "\<bar>of_int (round_half_even x) - x\<bar> \<le> 1 / 2"
proof -
  have "of_int \<lfloor>x\<rfloor> \<le> x" "x < of_int \<lfloor>x\<rfloor> + 1" by linarith+
  then show ?thesis
    unfolding round_half_even_def Let_def by (auto simp add: abs_if; linarith)
qed

lemma fround_normal:
  assumes "0 < p" and "2 powi (1 - emax) \<le> \<bar>x\<bar>" and "\<bar>x\<bar> < 2 powi emax"
  shows "\<exists>y. fround p emax x = Fin y \<and> \<bar>y - x\<bar> \<le> \<bar>x\<bar> / 2 ^ p \<and> sgn y = sgn x"
proof -
  define a where "a = \<bar>x\<bar>"
  have p0: "(0::rat) < 2 powi (1 - emax)" by (simp add: zero_less_power_int)
  with assms(2) have apos: "0 < a" unfolding a_def by linarith
  then have x0: "x \<noteq> 0" by (auto simp: a_def)
  define e where "e = floor_log2 a"
  from floor_log2_bounds[OF apos] have lo: "2 powi e \<le> a" and hi: "a < 2 powi (e + 1)"
    by (simp_all add: e_def)
  have "(2::rat) powi (1 - emax) < 2 powi (e + 1)"
    using assms(2) hi by (simp add: a_def)
  then have "1 - emax < e + 1"
    by (smt (verit) power_int_increasing one_le_numeral not_less)
  then have emax: "max e (1 - emax) = e" by simp
  define ulp :: rat where "ulp = 2 powi (e - int p + 1)"
  have ulp_pos: "0 < ulp" by (simp add: ulp_def zero_less_power_int)
  define m where "m = round_half_even (a / ulp)"
  define y where "y = of_int m * ulp"
  have "\<bar>of_int m - a / ulp\<bar> \<le> 1 / 2"
    unfolding m_def by (rule round_half_even_error)
  then have "\<bar>of_int m - a / ulp\<bar> * ulp \<le> 1 / 2 * ulp"
    using ulp_pos by (intro mult_right_mono) simp_all
  moreover have "\<bar>of_int m - a / ulp\<bar> * ulp = \<bar>y - a\<bar>"
    using ulp_pos by (simp add: y_def abs_mult[symmetric] left_diff_distrib del: abs_mult)
      (simp add: abs_mult[symmetric] field_simps)
  ultimately have err: "\<bar>y - a\<bar> \<le> ulp / 2" by simp
  have "ulp / 2 = 2 powi e / 2 ^ p"
  proof -
    have "ulp = 2 powi (e + 1) / 2 powi (int p)"
      unfolding ulp_def using power_int_diff[of "2::rat" "e + 1" "int p"]
      by (simp add: algebra_simps)
    also have "\<dots> = 2 powi e * 2 / 2 ^ p"
      by (simp add: power_int_add)
    finally show ?thesis by simp
  qed
  also have "\<dots> \<le> a / 2 ^ p"
    using lo by (simp add: divide_right_mono)
  finally have half: "ulp / 2 \<le> a / 2 ^ p" .
  have "(2::rat) ^ p \<ge> 2"
    using assms(1) by (metis One_nat_def Suc_leI one_le_numeral power_increasing power_one_right)
  then have "a / 2 ^ p \<le> a / 2"
    using apos by (intro divide_left_mono) simp_all
  with half err have close: "\<bar>y - a\<bar> \<le> a / 2" and rel: "\<bar>y - a\<bar> \<le> a / 2 ^ p"
    by linarith+
  then have ypos: "0 < y" using apos by linarith
  have "y \<le> 2 * a" using close apos by linarith
  also have "\<dots> < 2 * 2 powi emax" using assms(3) by (simp add: a_def)
  also have "\<dots> = 2 powi (emax + 1)" by (simp add: power_int_add)
  finally have nov: "\<not> 2 powi (emax + 1) \<le> y" by simp
  have fr: "fround p emax x = Fin (sgn x * y)"
    using x0 nov emax
    by (simp add: fround_def Let_def y_def m_def ulp_def e_def a_def)
  have "\<bar>sgn x * y - x\<bar> = \<bar>y - a\<bar>"
    using x0 by (cases "0 < x") (simp_all add: a_def sgn_if abs_if)
  moreover have "sgn (sgn x * y) = sgn x"
    using ypos x0 by (simp add: sgn_mult)
  ultimately show ?thesis
    using fr rel by (auto simp: a_def)
qed

lemma rel_bounds:
  assumes "\<bar>y - x\<bar> \<le> x / 2 ^ p" and "0 < (x::rat)"
  shows "x * (1 - 1 / 2 ^ p) \<le> y" "y \<le> x * (1 + 1 / 2 ^ p)"
  using assms by (simp_all add: abs_le_iff algebra_simps)

lemma in_range:
  assumes "2 powi a \<le> (x::rat)" and "x < 2 powi b" and "lo \<le> a" and "b \<le> hi"
  shows "2 powi lo \<le> \<bar>x\<bar>" "\<bar>x\<bar> < 2 powi hi"
proof -
  have "(0::rat) < 2 powi a" by (simp add: zero_less_power_int)
  with assms(1) have x: "0 < x" by linarith
  have "(2::rat) powi lo \<le> 2 powi a" using assms(3) by (intro power_int_increasing) simp_all
  with assms(1) x show "2 powi lo \<le> \<bar>x\<bar>" by simp
  have "(2::rat) powi b \<le> 2 powi hi" using assms(4) by (intro power_int_increasing) simp_all
  with assms(2) x show "\<bar>x\<bar> < 2 powi hi" by simp
qed

lemma scale_id:
  fixes T c A B :: rat
  assumes "0 < T" "0 < c" "0 < B"
  shows "1000 / T * (A / (B * (1000 * c))) = 1 / (T * c * B) * A"
proof -
  have "1000 / T * (A / (B * (1000 * c))) = (1000 * A) / (T * (B * (1000 * c)))"
    by simp
  also have "\<dots> = (1000 * A) / (1000 * (T * c * B))"
    by (simp add: mult_ac)
  also have "\<dots> = A / (T * c * B)"
    by (rule mult_divide_mult_cancel_left) simp
  finally show ?thesis by simp
qed

lemma round_half_even_of_int: "round_half_even (of_int n) = n"
  by (simp add: round_half_even_def)

text \<open>An integer of fewer than \<open>p\<close> bits is a number of the format.\<close>

lemma fround_of_int:
  assumes "0 < p" and "\<bar>i\<bar> < 2 ^ p" and "int p \<le> emax"
  shows "fround p emax (of_int i) = Fin (of_int i)"
proof (cases "i = 0")
  case True
  then show ?thesis by (simp add: fround_def)
next
  case False
  define a :: rat where "a = of_int \<bar>i\<bar>"
  have a1: "1 \<le> a" using False by (simp add: a_def)
  then have apos: "0 < a" by simp
  have "a < of_int (2 ^ p)" unfolding a_def using assms(2) by (simp only: of_int_less_iff)
  then have ap: "a < 2 ^ p" by simp
  define e where "e = floor_log2 a"
  from floor_log2_bounds[OF apos] have lo: "2 powi e \<le> a" and hi: "a < 2 powi (e + 1)"
    by (simp_all add: e_def)
  have "(2::rat) powi 0 < 2 powi (e + 1)" using a1 hi by simp
  then have e0: "0 \<le> e"
    by (smt (verit) power_int_increasing one_le_numeral not_less)
  have "(2::rat) powi e < 2 powi (int p)" using lo ap by simp
  then have ep: "e < int p"
    by (smt (verit) power_int_increasing one_le_numeral not_less)
  have emax: "max e (1 - emax) = e" using e0 assms(1,3) by simp
  define k where "k = nat (int p - 1 - e)"
  have ulp: "(2::rat) powi (e - int p + 1) = 1 / 2 ^ k"
  proof -
    have "e - int p + 1 = - int k" using ep by (simp add: k_def)
    then show ?thesis by (simp add: power_int_minus_divide)
  qed
  have "a * 2 ^ k = of_int (\<bar>i\<bar> * 2 ^ k)" by (simp add: a_def)
  then have r: "round_half_even (a * 2 ^ k) = \<bar>i\<bar> * 2 ^ k"
    by (simp only: round_half_even_of_int)
  have y: "of_int (round_half_even (a * 2 ^ k)) / 2 ^ k = a"
    unfolding r by (simp add: a_def)
  have "(2::rat) ^ p \<le> 2 powi (emax + 1)"
  proof -
    have "(2::rat) powi (int p) \<le> 2 powi (emax + 1)"
      using assms(3) by (intro power_int_increasing) simp_all
    then show ?thesis by simp
  qed
  with ap have nov: "\<not> 2 powi (emax + 1) \<le> a" by simp
  have ax: "\<bar>of_int i :: rat\<bar> = a" by (simp add: a_def)
  have "sgn (of_int i :: rat) * a = of_int i"
    by (simp add: a_def sgn_if abs_if)
  with False nov show ?thesis
    by (simp add: fround_def Let_def ax emax e_def[symmetric] ulp y)
qed

lemma int_to_double_exact: "\<bar>i\<bar> < 2 ^ 53 \<Longrightarrow> int_to_double i = Fin (of_int i)"
  unfolding int_to_double_def binary64_def by (rule fround_of_int) simp_all



lemma wrap32_id: "- (2 ^ 31) \<le> i \<Longrightarrow> i < 2 ^ 31 \<Longrightarrow> wrap32 i = i"
  by (simp add: wrap32_def)


subsection \<open>Evaluating a rounding\<close>

lemma round_half_even_near: "\<bar>x - of_int m\<bar> < 1 / 2 \<Longrightarrow> round_half_even x = m"
proof -
  assume a: "\<bar>x - of_int m\<bar> < 1 / 2"
  have f: "of_int \<lfloor>x\<rfloor> \<le> x" "x < of_int \<lfloor>x\<rfloor> + 1" by linarith+
  show ?thesis
  proof (cases "of_int m \<le> x")
    case True
    with a have "of_int m \<le> x" "x < of_int m + 1" by linarith+
    then have "\<lfloor>x\<rfloor> = m" by (simp add: floor_unique)
    with a True show ?thesis by (simp add: round_half_even_def Let_def)
  next
    case False
    have m1: "(of_int (m - 1) :: rat) = of_int m - 1" by simp
    from a False have "of_int (m - 1) \<le> x" "x < of_int (m - 1) + 1"
      unfolding m1 by linarith+
    then have fl: "\<lfloor>x\<rfloor> = m - 1" by (rule floor_unique)
    from a False have "1 / 2 < x - of_int (m - 1)"
      unfolding m1 by linarith
    with fl show ?thesis by (simp add: round_half_even_def Let_def)
  qed
qed

lemma round_half_even_tie:
  assumes "\<bar>x - of_int m\<bar> = 1 / 2" and "even m"
  shows "round_half_even x = m"
proof (cases "of_int m \<le> x")
  case True
  with assms(1) have x: "x = of_int m + 1 / 2" by linarith
  then have "of_int m \<le> x" "x < of_int m + 1" by simp_all
  then have "\<lfloor>x\<rfloor> = m" by (simp add: floor_unique)
  with x assms(2) show ?thesis by (simp add: round_half_even_def Let_def)
next
  case False
  have m1: "(of_int (m - 1) :: rat) = of_int m - 1" by simp
  from False assms(1) have x: "x = of_int m - 1 / 2" by linarith
  then have "of_int (m - 1) \<le> x" "x < of_int (m - 1) + 1" unfolding m1 by simp_all
  then have "\<lfloor>x\<rfloor> = m - 1" by (rule floor_unique)
  with x assms(2) show ?thesis by (simp add: round_half_even_def Let_def)
qed

lemma round_half_even_eval:
  assumes "\<bar>x - of_int m\<bar> < 1 / 2 \<or> (\<bar>x - of_int m\<bar> = 1 / 2 \<and> even m)"
  shows "round_half_even x = m"
  using assms round_half_even_near round_half_even_tie by blast

lemma floor_log2_unique:
  assumes "2 powi e \<le> x" and "x < 2 powi (e + 1)"
  shows "floor_log2 x = e"
proof -
  have "(0::rat) < 2 powi e" by (simp add: zero_less_power_int)
  with assms(1) have x: "0 < x" by linarith
  from floor_log2_bounds[OF x] have lo: "2 powi (floor_log2 x) \<le> x"
    and hi: "x < 2 powi (floor_log2 x + 1)" .
  have "(2::rat) powi e < 2 powi (floor_log2 x + 1)" using assms(1) hi by simp
  then have a: "e < floor_log2 x + 1"
    by (smt (verit) power_int_increasing one_le_numeral not_less)
  have "(2::rat) powi (floor_log2 x) < 2 powi (e + 1)" using lo assms(2) by simp
  then have b: "floor_log2 x < e + 1"
    by (smt (verit) power_int_increasing one_le_numeral not_less)
  from a b show ?thesis by simp
qed

text \<open>The rounding of a positive number whose exponent \<open>e\<close> and rounded significand \<open>m\<close>
  are known.\<close>

lemma fround_eval:
  assumes "0 < p" and "2 powi e \<le> x" and "x < 2 powi (e + 1)"
    and "1 - emax \<le> e" and "e < emax"
    and "\<bar>x / 2 powi (e - int p + 1) - of_int m\<bar> < 1 / 2
         \<or> (\<bar>x / 2 powi (e - int p + 1) - of_int m\<bar> = 1 / 2 \<and> even m)"
  shows "fround p emax x = Fin (of_int m * 2 powi (e - int p + 1))"
proof -
  have "(0::rat) < 2 powi e" by (simp add: zero_less_power_int)
  with assms(2) have x: "0 < x" by linarith
  define ulp :: rat where "ulp = 2 powi (e - int p + 1)"
  have ulp_pos: "0 < ulp" by (simp add: ulp_def zero_less_power_int)
  have fl: "floor_log2 x = e"
    using assms(2,3) by (rule floor_log2_unique)
  have r: "round_half_even (x / ulp) = m"
    using assms(6) by (intro round_half_even_eval) (simp add: ulp_def)
  have le: "\<bar>x / ulp - of_int m\<bar> \<le> 1 / 2"
    using round_half_even_error[of "x / ulp"] unfolding r by (simp add: abs_minus_commute)
  have "ulp \<le> 2 powi e"
    unfolding ulp_def using assms(1) by (intro power_int_increasing) simp_all
  with assms(2) have ux: "ulp \<le> x" by simp
  have "\<bar>x / ulp - of_int m\<bar> * ulp \<le> 1 / 2 * ulp"
    using le ulp_pos by (intro mult_right_mono) simp_all
  moreover have "\<bar>x / ulp - of_int m\<bar> * ulp = \<bar>x - of_int m * ulp\<bar>"
  proof -
    have "\<bar>x / ulp - of_int m\<bar> * ulp = \<bar>x / ulp - of_int m\<bar> * \<bar>ulp\<bar>"
      using ulp_pos by simp
    also have "\<dots> = \<bar>(x / ulp - of_int m) * ulp\<bar>"
      by (simp only: abs_mult)
    also have "(x / ulp - of_int m) * ulp = x - of_int m * ulp"
      using ulp_pos by (simp add: left_diff_distrib)
    finally show ?thesis .
  qed
  ultimately have "\<bar>x - of_int m * ulp\<bar> \<le> 1 / 2 * ulp" by simp
  then have "of_int m * ulp \<le> x + ulp / 2" by linarith
  also have "\<dots> \<le> 2 * x" using ux ulp_pos by simp
  also have "\<dots> < 2 * 2 powi (e + 1)" using assms(3) by simp
  also have "\<dots> = 2 powi (e + 2)" by (simp add: power_int_add)
  also have "\<dots> \<le> 2 powi (emax + 1)"
    using assms(5) by (intro power_int_increasing) simp_all
  finally have nov: "\<not> 2 powi (emax + 1) \<le> of_int m * ulp" by simp
  have "max e (1 - emax) = e" using assms(4) by simp
  with x nov r show ?thesis
    by (simp add: fround_def Let_def fl ulp_def)
qed

lemma binary32_eval:
  assumes "2 powi e \<le> x" and "x < 2 powi (e + 1)" and "- 126 \<le> e" and "e < 127"
    and "\<bar>x / 2 powi (e - 23) - of_int m\<bar> < 1 / 2
         \<or> (\<bar>x / 2 powi (e - 23) - of_int m\<bar> = 1 / 2 \<and> even m)"
    and "y = of_int m * 2 powi (e - 23)"
  shows "binary32 x = Fin y"
  using fround_eval[of 24 e x 127 m] assms by (simp add: binary32_def)

lemma binary64_eval:
  assumes "2 powi e \<le> x" and "x < 2 powi (e + 1)" and "- 1022 \<le> e" and "e < 1023"
    and "\<bar>x / 2 powi (e - 52) - of_int m\<bar> < 1 / 2
         \<or> (\<bar>x / 2 powi (e - 52) - of_int m\<bar> = 1 / 2 \<and> even m)"
    and "y = of_int m * 2 powi (e - 52)"
  shows "binary64 x = Fin y"
  using fround_eval[of 53 e x 1023 m] assms by (simp add: binary64_def)

lemma double_0_001: "binary64 (1 / 1000) = Fin (1152921504606847 / 1152921504606846976)"
  by (rule binary64_eval[where e = "- 10" and m = 4611686018427388]) simp_all

subsection \<open>The expression of the instantaneous rate\<close>

text \<open>Three roundings lie between the tick count and the stored rate: of the product with
  the constant, of the quotient, and of the conversion to \<open>float\<close>. With the value of the
  constant they add up to less than the fraction \<open>2^-23\<close>.\<close>

lemma sample_rate_error:
  assumes "0 < ticks" and "ticks * 10 < 2 ^ 31"
  shows "\<exists>r. sample_rate ticks = Fin r
             \<and> \<bar>r - 1000 / of_int (ticks * 10)\<bar> \<le> (1000 / of_int (ticks * 10)) / 2 ^ 23"
proof -
  define t where "t = ticks * 10"
  have t: "0 < t" "t < 2 ^ 31" using assms by (simp_all add: t_def)
  define c :: rat where "c = 1152921504606847 / 1152921504606846976"
  define u :: rat where "u = 1 / 2 ^ 53"
  define v :: rat where "v = 1 / 2 ^ 24"
  define T :: rat where "T = of_int t"
  define W :: rat where "W = 1000 / T"
  have "1 \<le> t" using t(1) by simp
  then have T1: "1 \<le> T" unfolding T_def by simp
  have "T < of_int (2 ^ 31)" unfolding T_def using t(2) by (simp only: of_int_less_iff)
  then have T2: "T < 2 ^ 31" by simp
  have Tpos: "0 < T" using T1 by simp
  have Wpos: "0 < W" using Tpos by (simp add: W_def)
  have cpos: "0 < c" by (simp add: c_def)
  have u: "0 < u" "u < 1" "0 < 1 - u" "0 < 1 + u" by (simp_all add: u_def)
  have v: "0 < v" "v < 1" "0 < 1 - v" "0 < 1 + v" by (simp_all add: v_def)
  \<comment> \<open>the product\<close>
  define x1 where "x1 = T * c"
  have x1pos: "0 < x1" using Tpos cpos by (simp add: x1_def)
  have "1 * c \<le> T * c" using T1 cpos by (intro mult_right_mono) simp_all
  then have x1lo: "1 / 1024 \<le> x1" by (simp add: x1_def c_def)
  have "T * c < 2 ^ 31 * c" using T2 cpos by (intro mult_strict_right_mono)
  then have x1hi: "x1 < 2 ^ 22" by (simp add: x1_def c_def)
  have p10: "(2::rat) powi (- 10) = 1 / 1024" by (simp add: power_int_minus_divide)
  have r1: "2 powi (1 - 1023) \<le> \<bar>x1\<bar>" "\<bar>x1\<bar> < 2 powi 1023"
    using in_range[of "- 10" x1 22 "1 - 1023" 1023] x1lo x1hi by (simp_all add: p10)
  from fround_normal[OF _ r1, of 53] obtain d where
    d: "binary64 x1 = Fin d" "\<bar>d - x1\<bar> \<le> \<bar>x1\<bar> / 2 ^ 53" "sgn d = sgn x1"
    by (auto simp: binary64_def)
  from d(2) x1pos have dlo: "x1 * (1 - u) \<le> d" and dhi: "d \<le> x1 * (1 + u)"
    using rel_bounds[of d x1 53] by (simp_all add: u_def)
  have dpos: "0 < d" using d(3) x1pos by (simp add: sgn_if split: if_splits)
  have "1 / 1024 * (1 - u) \<le> x1 * (1 - u)" using x1lo u by (intro mult_right_mono) simp_all
  with dlo have dlo': "1 / 2048 \<le> d" by (simp add: u_def)
  have "x1 * (1 + u) \<le> 2 ^ 22 * (1 + u)" using x1hi u by (intro mult_right_mono) simp_all
  with dhi have dhi': "d \<le> 2 ^ 23" by (simp add: u_def)
  \<comment> \<open>the quotient\<close>
  define x2 where "x2 = 1 / d"
  have x2pos: "0 < x2" using dpos by (simp add: x2_def)
  have x2lo: "1 / 2 ^ 23 \<le> x2" unfolding x2_def using dhi' dpos by (intro divide_left_mono) simp_all
  have x2hi: "x2 \<le> 2048" unfolding x2_def using dlo' dpos by (simp add: field_simps)
  have p23: "(2::rat) powi (- 23) = 1 / 2 ^ 23" by (simp add: power_int_minus_divide)
  have r2: "2 powi (1 - 1023) \<le> \<bar>x2\<bar>" "\<bar>x2\<bar> < 2 powi 1023"
    using in_range[of "- 23" x2 12 "1 - 1023" 1023] x2lo x2hi by (simp_all add: p23)
  from fround_normal[OF _ r2, of 53] obtain q where
    q: "binary64 x2 = Fin q" "\<bar>q - x2\<bar> \<le> \<bar>x2\<bar> / 2 ^ 53" "sgn q = sgn x2"
    by (auto simp: binary64_def)
  from q(2) x2pos have qlo: "x2 * (1 - u) \<le> q" and qhi: "q \<le> x2 * (1 + u)"
    using rel_bounds[of q x2 53] by (simp_all add: u_def)
  have qpos: "0 < q" using q(3) x2pos by (simp add: sgn_if split: if_splits)
  have "1 / 2 ^ 23 * (1 - u) \<le> x2 * (1 - u)" using x2lo u by (intro mult_right_mono) simp_all
  with qlo have qlo': "1 / 2 ^ 24 \<le> q" by (simp add: u_def)
  have "x2 * (1 + u) \<le> 2048 * (1 + u)" using x2hi u by (intro mult_right_mono) simp_all
  with qhi have qhi': "q < 2 ^ 12" by (simp add: u_def)
  \<comment> \<open>the conversion to float\<close>
  have p24: "(2::rat) powi (- 24) = 1 / 2 ^ 24" by (simp add: power_int_minus_divide)
  have r3: "2 powi (1 - 127) \<le> \<bar>q\<bar>" "\<bar>q\<bar> < 2 powi 127"
    using in_range[of "- 24" q 12 "1 - 127" 127] qlo' qhi' by (simp_all add: p24)
  from fround_normal[OF _ r3, of 24] obtain r where
    r: "binary32 q = Fin r" "\<bar>r - q\<bar> \<le> \<bar>q\<bar> / 2 ^ 24"
    by (auto simp: binary32_def)
  from r(2) qpos have rlo: "q * (1 - v) \<le> r" and rhi: "r \<le> q * (1 + v)"
    using rel_bounds[of r q 24] by (simp_all add: v_def)
  have "wrap32 (ticks * 10) = t"
    using t by (simp add: t_def wrap32_id)
  moreover have "int_to_double t = Fin T" "int_to_double 1 = Fin 1"
    using t int_to_double_exact[of t] int_to_double_exact[of 1] by (simp_all add: T_def)
  ultimately have val: "sample_rate ticks = Fin r"
    using d(1) q(1) r(1) dpos
    by (simp add: sample_rate_def elapsed_seconds_def REFRESH_RATE_PRECISION_def double_0_001
        x1_def x2_def c_def)
  \<comment> \<open>the bounds put together\<close>
  have x1u: "0 < x1 * (1 - u)" "0 < x1 * (1 + u)"
    using x1pos u by simp_all
  have x2le: "x2 \<le> 1 / (x1 * (1 - u))"
    unfolding x2_def using dlo x1u(1) by (intro frac_le) simp_all
  have x2ge: "1 / (x1 * (1 + u)) \<le> x2"
    unfolding x2_def using dhi dpos by (intro frac_le) simp_all
  have "r \<le> q * (1 + v)" by (rule rhi)
  also have "\<dots> \<le> x2 * (1 + u) * (1 + v)" using qhi v by (intro mult_right_mono) simp_all
  also have "\<dots> \<le> 1 / (x1 * (1 - u)) * (1 + u) * (1 + v)"
    using x2le u v by (intro mult_right_mono) simp_all
  also have "\<dots> = W * ((1 + u) * (1 + v) / ((1 - u) * (1000 * c)))"
    unfolding W_def x1_def using scale_id[OF Tpos cpos u(3), of "(1 + u) * (1 + v)"]
    by (simp add: mult_ac)
  also have "\<dots> \<le> W * (1 + 1 / 2 ^ 23)"
    using Wpos by (intro mult_left_mono) (simp_all add: u_def v_def c_def)
  finally have up: "r \<le> W * (1 + 1 / 2 ^ 23)" .
  have "W * (1 - 1 / 2 ^ 23) \<le> W * ((1 - u) * (1 - v) / ((1 + u) * (1000 * c)))"
    using Wpos by (intro mult_left_mono) (simp_all add: u_def v_def c_def)
  also have "\<dots> = 1 / (x1 * (1 + u)) * (1 - u) * (1 - v)"
    unfolding W_def x1_def using scale_id[OF Tpos cpos u(4), of "(1 - u) * (1 - v)"]
    by (simp add: mult_ac)
  also have "\<dots> \<le> x2 * (1 - u) * (1 - v)"
    using x2ge u v by (intro mult_right_mono) simp_all
  also have "\<dots> \<le> q * (1 - v)" using qlo v by (intro mult_right_mono) simp_all
  also have "\<dots> \<le> r" by (rule rlo)
  finally have low: "W * (1 - 1 / 2 ^ 23) \<le> r" .
  from up low have "r - W \<le> W / 2 ^ 23" "W - r \<le> W / 2 ^ 23"
    by (simp_all add: algebra_simps)
  then have "\<bar>r - W\<bar> \<le> W / 2 ^ 23"
    by (simp only: abs_le_iff minus_diff_eq)
  with val show ?thesis
    by (auto simp: W_def T_def t_def)
qed

text \<open>The rate that is stored after \<open>ticks\<close> ticks is within the fraction \<open>2^-23\<close> of
  1 / (ticks \<times> 0.01 s), as long as the \<open>int\<close> product does not overflow; with no tick it is
  the infinity of the division by zero.\<close>

lemma sample_rate_bound:
  assumes "0 < ticks" and "ticks * 10 < 2 ^ 31"
  shows "close_to (1 / 2 ^ 23) (sample_rate ticks) (1 / (of_int ticks * (10 / 1000)))"
proof -
  from sample_rate_error[OF assms] obtain r where
    r: "sample_rate ticks = Fin r"
       "\<bar>r - 1000 / of_int (ticks * 10)\<bar> \<le> (1000 / of_int (ticks * 10)) / 2 ^ 23"
    by blast
  have "(1000::rat) / of_int (ticks * 10) = 1 / (of_int ticks * (10 / 1000))"
    by simp
  with r assms(1) show ?thesis
    by (simp add: close_to_def)
qed

lemma sample_rate_0: "sample_rate 0 = PInf"
proof -
  have "binary64 0 = Fin 0"
    by (simp add: binary64_def fround_def)
  then show ?thesis
    using int_to_double_exact[of 0] int_to_double_exact[of 1]
    by (simp add: sample_rate_def elapsed_seconds_def wrap32_def double_0_001)
qed

text \<open>The values for some tick counts, and the sums and the quotient of a window of nine
  samples taken alternately after 3 and after 7 ticks.\<close>

lemma sample_rate_100: "sample_rate 100 = Fin (1)"
proof -
  have d: "binary64 (1000 * (1152921504606847 / 1152921504606846976)) = Fin (1)"
    by (rule binary64_eval[where e = 0 and m = 4503599627370496]) simp_all
  have q: "binary64 (1 / (1)) = Fin (1)"
    by (rule binary64_eval[where e = 0 and m = 4503599627370496]) simp_all
  have r: "binary32 (1) = Fin (1)"
    by (rule binary32_eval[where e = 0 and m = 8388608]) simp_all
  have i: "int_to_double 1000 = Fin 1000" "int_to_double 1 = Fin 1"
    using int_to_double_exact[of 1000] int_to_double_exact[of 1] by simp_all
  from d q r i show ?thesis
    by (simp add: sample_rate_def elapsed_seconds_def REFRESH_RATE_PRECISION_def wrap32_def
        double_0_001)
qed

lemma sample_rate_3: "sample_rate 3 = Fin (8738133 / 262144)"
proof -
  have d: "binary64 (30 * (1152921504606847 / 1152921504606846976)) = Fin (1080863910568919 / 36028797018963968)"
    by (rule binary64_eval[where e = "- 6" and m = 8646911284551352]) simp_all
  have q: "binary64 (1 / (1080863910568919 / 36028797018963968)) = Fin (4691249611844267 / 140737488355328)"
    by (rule binary64_eval[where e = 5 and m = 4691249611844267]) simp_all
  have r: "binary32 (4691249611844267 / 140737488355328) = Fin (8738133 / 262144)"
    by (rule binary32_eval[where e = 5 and m = 8738133]) simp_all
  have i: "int_to_double 30 = Fin 30" "int_to_double 1 = Fin 1"
    using int_to_double_exact[of 30] int_to_double_exact[of 1] by simp_all
  from d q r i show ?thesis
    by (simp add: sample_rate_def elapsed_seconds_def REFRESH_RATE_PRECISION_def wrap32_def
        double_0_001)
qed















section \<open>Properties of the refresh-rate estimator\<close>

text \<open>An \<open>OFF\<close> event changes nothing once the estimator is initialised, unless the page
  has no more sensors than \<open>num_of_sensors_off\<close>, the counter that is never assigned.\<close>

lemma off_event_keeps_session:
  "initialization_occured s \<Longrightarrow> num_of_sensors_off s < sensors_on_page s \<Longrightarrow>
   calculate_refresh_rate SENSOR_OFF s = s"
  by (simp add: calculate_refresh_rate_def)

lemma calculate_refresh_rate_num_of_sensors_off:
  "num_of_sensors_off (calculate_refresh_rate sensor_state s) = num_of_sensors_off s"
  by (simp add: calculate_refresh_rate_def take_sample_def emit_def Let_def)

text \<open>
  Claim C5. Whenever every sensor of the active page is off, both rates are to be pinned
  to 0. The code tests \<open>num_of_sensors_off >= sensors_on_page\<close>, and \<open>num_of_sensors_off\<close>
  stays 0; so with all nine sensors of a page switched off, the \<open>OFF\<close> event leaves both
  rates at their last values (here 2 Hz), and so does a whole round of idle calls through
  the nine disabled controls, each of which reports \<open>OFF\<close> to the estimator.
\<close>

theorem all_off_rates_not_pinned:
  "num_of_disabled_sensors all_off_session = sensors_on_page all_off_session
   \<and> list_all (\<lambda>sensor. \<not> enabled sensor) (sensors all_off_session)
   \<and> inst_refresh_rate (calculate_refresh_rate SENSOR_OFF all_off_session) = Fin 2
   \<and> avg_refresh_rate (calculate_refresh_rate SENSOR_OFF all_off_session) = Fin 2
   \<and> map_sum id (\<lambda>s. (inst_refresh_rate s, avg_refresh_rate s, current_sensor s))
        (idle_calls (map (\<lambda>i. (quiet, off_control i)) [0..<9]) all_off_session)
      = Inr (Fin 2, Fin 2, 0)"
  by (simp add: upt_rec sensor_proc_def on_idle_def calculate_refresh_rate_def advance_def
      next_sensor_def all_off_session_def start_session_def off_control_def control_def
      quiet_def list_all_iff)

lemma sampling_event:
  assumes "initialization_occured s"
    and "num_of_sensors_off s < sensors_on_page s \<or> reset_on_all_off_occured s"
    and "sensor_state \<noteq> SENSOR_OFF"
  shows "calculate_refresh_rate sensor_state s = take_sample sensor_state s"
  using assms by (auto simp add: calculate_refresh_rate_def)

lemma take_sample_rate:
  "inst_refresh_rate (take_sample sensor_state s) = sample_rate (refresh_time s)"
  "refresh_time (take_sample sensor_state s) =
     (if sensor_state = SENSOR_ACTIVE then 0 else refresh_time s)"
  by (simp_all add: take_sample_def emit_def Let_def)




text \<open>The ticks of the timer between two completions; the counter does not wrap before
  \<open>2^31\<close>.\<close>

lemma funpow_inc_refresh_time:
  "0 \<le> refresh_time s \<Longrightarrow> refresh_time s + int n < 2 ^ 31 \<Longrightarrow>
   (inc_refresh_time ^^ n) s = s\<lparr>refresh_time := refresh_time s + int n\<rparr>"
  by (induction n) (simp_all add: inc_refresh_time_def wrap32_id)






text \<open>
  Claim C8, as the code has it. The estimator is gated by \<open>initialization_occured\<close>: until
  the first \<open>ACTIVE\<close> completion no rate is computed, and that first \<open>ACTIVE\<close> completion
  only zeroes the tick counter and installs the tick handler. After it, every completion
  that is not \<open>OFF\<close> (and does not take the all-off branch) stores the \<open>float\<close> value of
  \<open>1/(ticks*10*0.001)\<close>, computed in \<open>double\<close>: for 1 to 214748364 ticks (the product with
  10 fits an \<open>int\<close>) it is within the fraction \<open>2^-23\<close> of 1 / (ticks \<times> 0.01 s), and with 0
  ticks it is the infinity of the division by zero. The tick counter is zeroed exactly when
  the event is \<open>ACTIVE\<close>.
\<close>

theorem instantaneous_rate:
  assumes "num_of_sensors_off s < sensors_on_page s \<or> reset_on_all_off_occured s"
    and "sensor_state \<noteq> SENSOR_OFF"
  shows "let s' = calculate_refresh_rate sensor_state s; ticks = refresh_time s in
         refresh_time s' = (if sensor_state = SENSOR_ACTIVE then 0 else ticks)
         \<and> (if initialization_occured s
            then inst_refresh_rate s' = sample_rate ticks
               \<and> (0 < ticks \<and> ticks * 10 < 2 ^ 31
                   \<longrightarrow> close_to (1 / 2 ^ 23) (inst_refresh_rate s')
                         (1 / (of_int ticks * (10 / 1000))))
               \<and> (ticks = 0 \<longrightarrow> inst_refresh_rate s' = PInf)
            else inst_refresh_rate s' = inst_refresh_rate s
               \<and> initialization_occured s' = (sensor_state = SENSOR_ACTIVE))"
proof (cases "initialization_occured s")
  case True
  then have c: "calculate_refresh_rate sensor_state s = take_sample sensor_state s"
    using assms by (rule sampling_event)
  show ?thesis
    unfolding c using True sample_rate_bound[of "refresh_time s"]
    by (simp add: Let_def take_sample_rate sample_rate_0)
next
  case False
  then show ?thesis
    by (simp add: calculate_refresh_rate_def emit_def)
qed

text \<open>Two \<open>ACTIVE\<close> completions with 100 ticks of the timer between them: the first
  initialises, the second measures exactly 1 Hz and zeroes the counter. An \<open>NA\<close> completion
  3 ticks after the initialising one measures 33.333332 Hz, the \<open>float\<close> next to 100/3, and
  leaves the counter at 3.\<close>

theorem instantaneous_rate_witness:
  "(let s = (inc_refresh_time ^^ 100) (active_completions [0] fresh_page);
        s' = calculate_refresh_rate SENSOR_ACTIVE s
    in inst_refresh_rate s' = Fin 1 \<and> refresh_time s' = 0
       \<and> close_to (1 / 2 ^ 23) (inst_refresh_rate s') (1 / (of_int 100 * (10 / 1000))))
   \<and> (let s = (inc_refresh_time ^^ 3) (active_completions [0] fresh_page);
           s' = calculate_refresh_rate SENSOR_NA s
       in inst_refresh_rate s' = Fin (8738133 / 262144) \<and> refresh_time s' = 3
          \<and> close_to (1 / 2 ^ 23) (inst_refresh_rate s') (1 / (of_int 3 * (10 / 1000))))"
proof -
  define a where "a = (inc_refresh_time ^^ 100) (active_completions [0] fresh_page)"
  define b where "b = (inc_refresh_time ^^ 3) (active_completions [0] fresh_page)"
  note run = a_def b_def funpow_inc_refresh_time calculate_refresh_rate_def fresh_page_def
    start_session_def emit_def
  have a: "num_of_sensors_off a < sensors_on_page a \<or> reset_on_all_off_occured a"
    "SENSOR_ACTIVE \<noteq> SENSOR_OFF"
    by (simp_all add: run)
  have b: "num_of_sensors_off b < sensors_on_page b \<or> reset_on_all_off_occured b"
    "SENSOR_NA \<noteq> SENSOR_OFF"
    by (simp_all add: run)
  have i: "initialization_occured a" "refresh_time a = 100"
    "initialization_occured b" "refresh_time b = 3"
    by (simp_all add: run)
  from instantaneous_rate[OF a] instantaneous_rate[OF b] i sample_rate_100 sample_rate_3
  show ?thesis
    unfolding a_def[symmetric] b_def[symmetric]
    by (simp add: Let_def close_to_def)
qed


text \<open>The claim as stated, "on any non-OFF completion the rate is set to
  1 / (ticks \<times> tick period)", fails before the first \<open>ACTIVE\<close> completion. The page has just
  been opened: the estimator is not initialised, no tick has been counted, and the
  expression of the rate has the value infinity. Neither an \<open>NA\<close> completion nor the first
  \<open>ACTIVE\<close> completion assigns it: the rate stays 0. The same through \<open>sensor_proc\<close>: the
  first request is answered with "no data", and the rate is 0 afterwards. After the
  initialisation the rate that is stored is the \<open>float\<close> next to the quotient and not the
  quotient: 3 ticks after the initialising completion it is 8738133/262144, which is not
  1 / (3 \<times> 0.01) = 100/3.\<close>

theorem instantaneous_rate_counterexample:
  "\<not> initialization_occured fresh_page \<and> refresh_time fresh_page = 0
   \<and> num_of_sensors_off fresh_page < sensors_on_page fresh_page
   \<and> sample_rate (refresh_time fresh_page) = PInf
   \<and> inst_refresh_rate (calculate_refresh_rate SENSOR_NA fresh_page) = Fin 0
   \<and> inst_refresh_rate (calculate_refresh_rate SENSOR_ACTIVE fresh_page) = Fin 0
   \<and> map_sum id (\<lambda>s. (inst_refresh_rate s, refresh_time s, initialization_occured s))
        (idle_calls (exchange ERR_NO_DATA) fresh_page) = Inr (Fin 0, 0, False)
   \<and> inst_refresh_rate
        (calculate_refresh_rate SENSOR_NA
           ((inc_refresh_time ^^ 3) (active_completions [0] fresh_page)))
      = Fin (8738133 / 262144)
   \<and> Fin (8738133 / 262144) \<noteq> Fin (1 / (of_int 3 * (10 / 1000)))"
proof -
  have "inst_refresh_rate
        (calculate_refresh_rate SENSOR_NA
           ((inc_refresh_time ^^ 3) (active_completions [0] fresh_page)))
      = Fin (8738133 / 262144)"
    by (simp add: funpow_inc_refresh_time calculate_refresh_rate_def take_sample_def Let_def
        sample_rate_3 fresh_page_def start_session_def emit_def)
  then show ?thesis
    by (simp add: sample_rate_0 sensor_proc_def on_idle_def on_prompt_def no_value_def
        idle_tail_def after_switch_def append_response_def advance_def next_sensor_def
        calculate_refresh_rate_def emit_def set_screen_buf_def Let_def
        fresh_page_def start_session_def control_def quiet_def prompt_with_def
        engine_rpm_sensor_def NUM_OF_RETRIES_def exchange_def
        del: active_completions.simps funpow.simps)
qed

section \<open>Properties of the decoding\<close>

text \<open>The conversion to \<open>float\<close> is exact below \<open>2^24\<close>, so for every payload of at most
  three bytes the formula computes with the raw value itself.\<close>

lemma float_of_int_exact: "\<bar>i\<bar> < 2 ^ 24 \<Longrightarrow> float_of_int i = i"
proof -
  assume "\<bar>i\<bar> < 2 ^ 24"
  then have "nat \<bar>i\<bar> < 2 ^ 24" by simp
  then have "floorlog 2 (nat \<bar>i\<bar>) \<le> 24"
    by (simp add: floorlog_le_iff)
  then have "nat (bitlen \<bar>i\<bar> - 24) = 0"
    by (simp add: bitlen_def)
  then show ?thesis
    by (simp add: float_of_int_def Let_def)
qed

lemma strtol_digits_foldl:
  "list_all is_hex s \<Longrightarrow>
   strtol_digits acc s = foldl (\<lambda>a c. 16 * a + (case hex_digit c of Some v \<Rightarrow> v | None \<Rightarrow> 0)) acc s"
  by (induction s arbitrary: acc) (auto simp: is_hex_def)

lemma hex_digit_less: "hex_digit c = Some v \<Longrightarrow> v < 16"
  by (auto simp: hex_digit_def Let_def split: if_splits)

lemma foldl_hex_bound:
  "foldl (\<lambda>a c. 16 * a + (case hex_digit c of Some v \<Rightarrow> v | None \<Rightarrow> 0)) acc s
     < (acc + 1) * 16 ^ length s"
proof (induction s arbitrary: acc)
  case Nil
  then show ?case by simp
next
  case (Cons c s)
  define d where "d = (case hex_digit c of Some v \<Rightarrow> v | None \<Rightarrow> 0)"
  have "d < 16"
    unfolding d_def by (auto split: option.splits dest: hex_digit_less)
  then have "16 * acc + d + 1 \<le> (acc + 1) * 16"
    by simp
  then have "(16 * acc + d + 1) * 16 ^ length s \<le> ((acc + 1) * 16) * 16 ^ length s"
    by (rule mult_le_mono1)
  also have "\<dots> = (acc + 1) * 16 ^ length (c # s)"
    by (simp add: algebra_simps)
  finally have le: "(16 * acc + d + 1) * 16 ^ length s \<le> (acc + 1) * 16 ^ length (c # s)" .
  have "foldl (\<lambda>a c. 16 * a + (case hex_digit c of Some v \<Rightarrow> v | None \<Rightarrow> 0)) (16 * acc + d) s
      < (16 * acc + d + 1) * 16 ^ length s"
    by (rule Cons.IH)
  with le show ?case
    unfolding d_def by simp
qed

lemma hex_value_bound: "hex_value s < 16 ^ length s"
  using foldl_hex_bound[of 0 s] by (simp add: hex_value_def)

lemma hex_not_space: "is_hex c \<Longrightarrow> \<not> isspace c \<and> c \<noteq> CHR ''-'' \<and> c \<noteq> CHR ''+''"
  by (auto simp: is_hex_def hex_digit_def isspace_def Let_def split: if_splits)

lemma hex_digit_x: "\<not> is_hex (CHR ''x'')" "\<not> is_hex (CHR ''X'')"
  by (simp_all add: is_hex_def hex_digit_def)

lemma strtol16_hex:
  assumes "list_all is_hex s" "length s \<le> 7"
  shows "strtol16 s = int (hex_value s)"
proof -
  have d: "dropWhile isspace s = s"
    using assms(1) hex_not_space by (cases s) auto
  have sg: "strtol_sign s = (False, s)"
    using assms(1) hex_not_space by (cases s) (auto simp: strtol_sign_def)
  have px: "strtol_prefix s = s"
    using assms(1) hex_digit_x by (auto simp: strtol_prefix_def split: list.splits)
  have "hex_value s < 16 ^ length s"
    by (rule hex_value_bound)
  also have "(16::nat) ^ length s \<le> 16 ^ 7"
    using assms(2) by (intro power_increasing) simp_all
  finally have "int (hex_value s) \<le> LONG_MAX"
    by (simp add: LONG_MAX_def)
  then show ?thesis
    using strtol_digits_foldl[OF assms(1), of 0]
    by (simp add: strtol16_def d sg px hex_value_def)
qed

lemma trunc_quarter_nat: "trunc_quarter (int n) = int (n div 4)"
  by (cases "n = 0") (simp_all add: trunc_quarter_def zdiv_int)

lemma engine_rpm_formula_exact:
  "\<bar>data\<bar> < 2 ^ 24 \<Longrightarrow>
   engine_rpm_formula units data =
     show_int (trunc_quarter data) @ (if units = METRIC then '' r/min'' else '' rpm'')"
  by (simp add: engine_rpm_formula_def float_of_int_exact)

text \<open>
  Claim C6. For the 2-byte sensor "010C" (Engine RPM): a token of at least four characters
  is cut after its first 4 + 2\<cdot>2 characters, the hex digits after the four header
  characters are the payload, read as a big-endian hex integer \<open>raw\<close>, and the text shown is
  the integer part of \<open>raw / 4\<close> followed by " r/min" (metric) or " rpm" (imperial).
\<close>

theorem rpm_decode:
  assumes "4 \<le> length token"
    and "list_all is_hex (take 4 (drop 4 token))"
  shows "decode_response units engine_rpm_sensor token =
           Inr (show_int (int (hex_value (take 4 (drop 4 token)) div 4))
                @ (if units = METRIC then '' r/min'' else '' rpm''))"
proof -
  let ?p = "take 4 (drop 4 token)"
  have len: "length ?p \<le> 7"
    by simp
  have v: "strtol16 ?p = int (hex_value ?p)"
    using assms(2) len by (rule strtol16_hex)
  have "hex_value ?p < 16 ^ length ?p"
    by (rule hex_value_bound)
  also have "(16::nat) ^ length ?p \<le> 16 ^ 4"
    by (intro power_increasing) simp_all
  finally have small: "\<bar>int (hex_value ?p)\<bar> < 2 ^ 24"
    by simp
  show ?thesis
    using assms(1) engine_rpm_formula_exact[OF small, of units]
    by (simp add: decode_response_def engine_rpm_sensor_def v trunc_quarter_nat)
qed

text \<open>The token "410C1AF8", also when the adapter pads it with zeroes, decodes to
  "1726 r/min" in metric units and to "1726 rpm" otherwise.\<close>

theorem rpm_decode_witness:
  "decode_response METRIC engine_rpm_sensor ''410C1AF8'' = Inr ''1726 r/min''
   \<and> decode_response METRIC engine_rpm_sensor ''410C1AF80000'' = Inr ''1726 r/min''
   \<and> decode_response IMPERIAL engine_rpm_sensor ''410C1AF8'' = Inr ''1726 rpm''
   \<and> hex_value ''1AF8'' = 6904"
proof -
  have h: "hex_value ''1AF8'' = 6904"
    by (simp add: hex_value_def hex_digit_def)
  have s: "show_int 1726 = ''1726''"
    by (simp add: show_int_def show_nat.simps digit_char_def)
  have a: "4 \<le> length ''410C1AF8''" "list_all is_hex (take 4 (drop 4 ''410C1AF8''))"
    by (simp_all add: is_hex_def hex_digit_def)
  have b: "4 \<le> length ''410C1AF80000''" "list_all is_hex (take 4 (drop 4 ''410C1AF80000''))"
    by (simp_all add: is_hex_def hex_digit_def)
  from rpm_decode[OF a, of METRIC] rpm_decode[OF b, of METRIC] rpm_decode[OF a, of IMPERIAL]
  show ?thesis
    by (simp add: h s)
qed

text \<open>The whole path through \<open>sensor_proc\<close>: the prompt arrives with the response
  "410C1AF8" classified as \<open>HEX_DATA\<close>; the control shows "1726 r/min", the cursor moves on,
  the retry counter is at its maximum, and the estimator has been initialised.\<close>

lemma rpm_poll_example:
  "map_sum id (\<lambda>(r, d, s). (r, screen_buf (sensors s ! 0), current_sensor s, retry_attempts s,
                             device_connected s, initialization_occured s))
     (sensor_proc (prompt_with HEX_DATA ''410C1AF8'') MSG_IDLE (control 0) 0 (awaiting 1))
   = Inr (D_REDRAWME, ''1726 r/min'', 1, 3, True, True)"
  by (simp add: sensor_proc_def on_idle_def on_prompt_def append_response_def
      find_valid_response_def scan_response_valid decode_response_def
      calculate_refresh_rate_def advance_def next_sensor_def emit_def set_screen_buf_def
      awaiting_def fresh_page_def start_session_def control_def prompt_with_def quiet_def
      engine_rpm_sensor_def engine_rpm_formula_def float_of_int_exact trunc_quarter_def
      strtol16_def strtol_sign_def strtol_prefix_def hex_digit_def isspace_def LONG_MAX_def
      show_int_def show_nat.simps digit_char_def NUM_OF_RETRIES_def Let_def)

section \<open>Properties of the toggle\<close>

text \<open>\<open>sensor_toggle\<close> is what \<open>sensor_proc\<close> does with \<open>MSG_TOGGLE\<close>, whatever the
  collaborators supply; the call always returns.\<close>

lemma sensor_proc_toggle:
  "\<exists>r. sensor_proc x MSG_TOGGLE d c s = Inr (r, sensor_toggle c d s)"
  by (auto simp add: sensor_proc_def sensor_toggle_def after_switch_def
      split: option.splits prod.splits)

lemma sensor_toggle_none: "dp3 d = None \<Longrightarrow> sensor_toggle c d s = (d, s)"
  by (simp add: sensor_toggle_def)

lemma sensor_toggle_effect:
  assumes "dp3 d = Some k" and "k < length (sensors s)" and "0 \<le> c"
    and "sensor_toggle c d s = (d', s')"
  shows "d1 d' = d1 d" "dp3 d' = dp3 d"
    "D_DISABLED d' = (if d1 d = c then \<not> D_DISABLED d else D_DISABLED d)"
    "length (sensors s') = length (sensors s)"
    "j \<noteq> k \<Longrightarrow> sensors s' ! j = sensors s ! j"
    "enabled (sensors s' ! k) = (if d1 d = c then D_DISABLED d else enabled (sensors s ! k))"
    "screen_buf (sensors s' ! k) =
       (if d1 d = c then (if D_DISABLED d then ''N/A'' else ''not monitoring'')
        else if D_DISABLED d then ''not monitoring'' else screen_buf (sensors s ! k))"
  using assms
  by (auto simp add: sensor_toggle_def on_toggle_def after_switch_def set_screen_buf_def
      set_enabled_def Let_def split: if_splits)

lemma owned_Cons:
  "owned ((t, d) # rows) = (case dp3 d of None \<Rightarrow> [] | Some k \<Rightarrow> [k]) @ owned rows"
  by (simp add: owned_def)

lemma owned_map:
  "map (\<lambda>r. dp3 (snd r)) rows' = map (\<lambda>r. dp3 (snd r)) rows \<Longrightarrow> owned rows' = owned rows"
proof -
  assume a: "map (\<lambda>r. dp3 (snd r)) rows' = map (\<lambda>r. dp3 (snd r)) rows"
  have "\<And>rs. owned rs = concat (map (\<lambda>x. case x of None \<Rightarrow> [] | Some k \<Rightarrow> [k])
                                 (map (\<lambda>r. dp3 (snd r)) rs))"
    by (simp add: owned_def comp_def)
  then have "owned rows' = concat (map (\<lambda>x. case x of None \<Rightarrow> [] | Some k \<Rightarrow> [k])
                                 (map (\<lambda>r. dp3 (snd r)) rows'))"
    and "owned rows = concat (map (\<lambda>x. case x of None \<Rightarrow> [] | Some k \<Rightarrow> [k])
                                 (map (\<lambda>r. dp3 (snd r)) rows))"
    by blast+
  then show ?thesis by (simp only: a)
qed

lemma owned_member:
  "r \<in> set rows \<Longrightarrow> dp3 (snd r) = Some k \<Longrightarrow> k \<in> set (owned rows)"
  by (force simp add: owned_def)


text \<open>What the broadcast does in the control of another sensor: the case ends in \<open>break\<close>,
  and the statements after the \<open>switch\<close> write "not monitoring" if that control is
  disabled.\<close>

lemma other_control_on_toggle:
  assumes "dp3 d = Some k" and "d1 d \<noteq> c" and "0 \<le> c"
  shows "sensor_proc x MSG_TOGGLE d c s =
           Inr (D_O_K, d, if D_DISABLED d then set_screen_buf k ''not monitoring'' s else s)"
  using assms by (simp add: sensor_proc_def on_toggle_def after_switch_def)

text \<open>So a control that is enabled, or that already shows "not monitoring", leaves the
  session as it is.\<close>

lemma other_control_unchanged:
  assumes "dp3 d = Some k" and "k < length (sensors s)" and "d1 d \<noteq> c" and "0 \<le> c"
    and "D_DISABLED d \<longrightarrow> screen_buf (sensors s ! k) = ''not monitoring''"
  shows "sensor_proc x MSG_TOGGLE d c s = Inr (D_O_K, d, s)"
proof -
  have "set_screen_buf k (screen_buf (sensors s ! k)) s = s"
    using assms(2) by (simp add: set_screen_buf_def)
  with assms show ?thesis
    by (auto simp add: sensor_proc_def on_toggle_def after_switch_def)
qed

text \<open>One broadcast, control by control: the control with the number \<open>c\<close> inverts its flag
  and writes its sensor; every other control keeps its flag and, if it is disabled, writes
  "not monitoring" into its sensor's \<open>screen_buf\<close>.\<close>

lemma broadcast_toggle_effect:
  assumes "distinct (owned rows)" and "list_all (\<lambda>k. k < length (sensors s)) (owned rows)"
    and "0 \<le> c" and "broadcast_toggle c rows s = (rows', s')"
  shows "length (sensors s') = length (sensors s)
       \<and> map (\<lambda>r. d1 (snd r)) rows' = map (\<lambda>r. d1 (snd r)) rows
       \<and> map (\<lambda>r. dp3 (snd r)) rows' = map (\<lambda>r. dp3 (snd r)) rows
       \<and> map (\<lambda>r. D_DISABLED (snd r)) rows' =
           map (\<lambda>r. if dp3 (snd r) \<noteq> None \<and> d1 (snd r) = c
                     then \<not> D_DISABLED (snd r) else D_DISABLED (snd r)) rows
       \<and> (\<forall>j. j \<notin> set (owned rows) \<longrightarrow> sensors s' ! j = sensors s ! j)
       \<and> (\<forall>r \<in> set rows. \<forall>k. dp3 (snd r) = Some k \<longrightarrow>
             enabled (sensors s' ! k) =
               (if d1 (snd r) = c then D_DISABLED (snd r) else enabled (sensors s ! k))
           \<and> screen_buf (sensors s' ! k) =
               (if d1 (snd r) = c
                then (if D_DISABLED (snd r) then ''N/A'' else ''not monitoring'')
                else if D_DISABLED (snd r) then ''not monitoring''
                else screen_buf (sensors s ! k)))"
  using assms
proof (induction rows arbitrary: s rows' s')
  case Nil
  then show ?case by (simp add: owned_def)
next
  case (Cons row rows)
  obtain t d where row: "row = (t, d)" by (cases row)
  obtain d' s1 where st: "sensor_toggle c d s = (d', s1)" by (cases "sensor_toggle c d s")
  obtain rows2 s2 where bt: "broadcast_toggle c rows s1 = (rows2, s2)"
    by (cases "broadcast_toggle c rows s1")
  from Cons.prems(4) row st bt have res: "rows' = (toggle_toggle c t, d') # rows2" "s' = s2"
    by simp_all
  show ?case
  proof (cases "dp3 d")
    case None
    with st have e: "d' = d" "s1 = s" by (simp_all add: sensor_toggle_none)
    from None row have o: "owned (row # rows) = owned rows" by (simp add: owned_Cons)
    from Cons.IH[OF _ _ Cons.prems(3) bt[unfolded e]] Cons.prems(1,2) o
    have ih: "length (sensors s2) = length (sensors s)
       \<and> map (\<lambda>r. d1 (snd r)) rows2 = map (\<lambda>r. d1 (snd r)) rows
       \<and> map (\<lambda>r. dp3 (snd r)) rows2 = map (\<lambda>r. dp3 (snd r)) rows
       \<and> map (\<lambda>r. D_DISABLED (snd r)) rows2 =
           map (\<lambda>r. if dp3 (snd r) \<noteq> None \<and> d1 (snd r) = c
                     then \<not> D_DISABLED (snd r) else D_DISABLED (snd r)) rows
       \<and> (\<forall>j. j \<notin> set (owned rows) \<longrightarrow> sensors s2 ! j = sensors s ! j)
       \<and> (\<forall>r \<in> set rows. \<forall>k. dp3 (snd r) = Some k \<longrightarrow>
             enabled (sensors s2 ! k) =
               (if d1 (snd r) = c then D_DISABLED (snd r) else enabled (sensors s ! k))
           \<and> screen_buf (sensors s2 ! k) =
               (if d1 (snd r) = c
                then (if D_DISABLED (snd r) then ''N/A'' else ''not monitoring'')
                else if D_DISABLED (snd r) then ''not monitoring''
                else screen_buf (sensors s ! k)))"
      by simp
    with None show ?thesis
      unfolding res row e by (simp add: owned_Cons)
  next
    case (Some k0)
    from Some row have o: "owned (row # rows) = k0 # owned rows" by (simp add: owned_Cons)
    from Cons.prems(1,2) o have k0: "k0 \<notin> set (owned rows)" "distinct (owned rows)"
      "k0 < length (sensors s)" "list_all (\<lambda>k. k < length (sensors s)) (owned rows)"
      by simp_all
    note eff = sensor_toggle_effect[OF Some k0(3) Cons.prems(3) st]
    from k0(4) eff(4) have la: "list_all (\<lambda>k. k < length (sensors s1)) (owned rows)" by simp
    from Cons.IH[OF k0(2) la Cons.prems(3) bt]
    have ih: "length (sensors s2) = length (sensors s1)"
      "map (\<lambda>r. d1 (snd r)) rows2 = map (\<lambda>r. d1 (snd r)) rows"
      "map (\<lambda>r. dp3 (snd r)) rows2 = map (\<lambda>r. dp3 (snd r)) rows"
      "map (\<lambda>r. D_DISABLED (snd r)) rows2 =
           map (\<lambda>r. if dp3 (snd r) \<noteq> None \<and> d1 (snd r) = c
                     then \<not> D_DISABLED (snd r) else D_DISABLED (snd r)) rows"
      "\<And>j. j \<notin> set (owned rows) \<Longrightarrow> sensors s2 ! j = sensors s1 ! j"
      "\<And>r k. r \<in> set rows \<Longrightarrow> dp3 (snd r) = Some k \<Longrightarrow>
             enabled (sensors s2 ! k) =
               (if d1 (snd r) = c then D_DISABLED (snd r) else enabled (sensors s1 ! k))
           \<and> screen_buf (sensors s2 ! k) =
               (if d1 (snd r) = c
                then (if D_DISABLED (snd r) then ''N/A'' else ''not monitoring'')
                else if D_DISABLED (snd r) then ''not monitoring''
                else screen_buf (sensors s1 ! k))"
      by blast+
    have other: "\<And>r k. r \<in> set rows \<Longrightarrow> dp3 (snd r) = Some k \<Longrightarrow> sensors s1 ! k = sensors s ! k"
    proof -
      fix r k assume "r \<in> set rows" "dp3 (snd r) = Some k"
      then have "k \<in> set (owned rows)" by (rule owned_member)
      with k0(1) have "k \<noteq> k0" by auto
      then show "sensors s1 ! k = sensors s ! k" by (rule eff(5))
    qed
    have head: "sensors s2 ! k0 = sensors s1 ! k0" using k0(1) by (rule ih(5))
    have p1: "length (sensors s') = length (sensors s)"
      unfolding res using ih(1) eff(4) by simp
    have p2: "map (\<lambda>r. d1 (snd r)) rows' = map (\<lambda>r. d1 (snd r)) (row # rows)"
      unfolding res row using ih(2) eff(1) by simp
    have p3: "map (\<lambda>r. dp3 (snd r)) rows' = map (\<lambda>r. dp3 (snd r)) (row # rows)"
      unfolding res row using ih(3) eff(2) by simp
    have p4: "map (\<lambda>r. D_DISABLED (snd r)) rows' =
           map (\<lambda>r. if dp3 (snd r) \<noteq> None \<and> d1 (snd r) = c
                     then \<not> D_DISABLED (snd r) else D_DISABLED (snd r)) (row # rows)"
      unfolding res row using ih(4) eff(3) Some by simp
    have p5: "\<forall>j. j \<notin> set (owned (row # rows)) \<longrightarrow> sensors s' ! j = sensors s ! j"
      unfolding res o using ih(5) eff(5) by simp
    have p6: "\<forall>r \<in> set (row # rows). \<forall>k. dp3 (snd r) = Some k \<longrightarrow>
             enabled (sensors s' ! k) =
               (if d1 (snd r) = c then D_DISABLED (snd r) else enabled (sensors s ! k))
           \<and> screen_buf (sensors s' ! k) =
               (if d1 (snd r) = c
                then (if D_DISABLED (snd r) then ''N/A'' else ''not monitoring'')
                else if D_DISABLED (snd r) then ''not monitoring''
                else screen_buf (sensors s ! k))"
    proof (intro ballI allI impI)
      fix r k assume r: "r \<in> set (row # rows)" and k: "dp3 (snd r) = Some k"
      show "enabled (sensors s' ! k) =
               (if d1 (snd r) = c then D_DISABLED (snd r) else enabled (sensors s ! k))
           \<and> screen_buf (sensors s' ! k) =
               (if d1 (snd r) = c
                then (if D_DISABLED (snd r) then ''N/A'' else ''not monitoring'')
                else if D_DISABLED (snd r) then ''not monitoring''
                else screen_buf (sensors s ! k))"
      proof (cases "r = row")
        case True
        with k Some row have "k = k0" by simp
        with True row eff(6,7) head show ?thesis
          unfolding res by simp
      next
        case False
        with r have "r \<in> set rows" by simp
        from ih(6)[OF this k] other[OF this k] show ?thesis
          unfolding res by simp
      qed
    qed
    from p1 p2 p3 p4 p5 p6 show ?thesis by blast
  qed
qed

lemma map_eq_nth:
  assumes "map f xs = map g ys" and "i < length ys"
  shows "f (xs ! i) = g (ys ! i)"
proof -
  from assms(1) have l: "length xs = length ys" by (rule map_eq_imp_length_eq)
  have "f (xs ! i) = map f xs ! i" using assms(2) l by simp
  also have "\<dots> = map g ys ! i" by (simp only: assms(1))
  also have "\<dots> = g (ys ! i)" using assms(2) by simp
  finally show ?thesis .
qed


lemma owned_Cons_row:
  "owned (r # rows) = (case dp3 (snd r) of None \<Rightarrow> [] | Some k \<Rightarrow> [k]) @ owned rows"
  by (simp add: owned_def)

text \<open>No two controls point to the same sensor.\<close>

lemma owner_unique:
  "distinct (owned rows) \<Longrightarrow> i < length rows \<Longrightarrow> j < length rows \<Longrightarrow>
   dp3 (snd (rows ! i)) = Some k \<Longrightarrow> dp3 (snd (rows ! j)) = Some k \<Longrightarrow> i = j"
proof (induction rows arbitrary: i j)
  case Nil
  then show ?case by simp
next
  case (Cons r rows)
  have tail: "k \<in> set (owned rows)" if "n < length rows" "dp3 (snd (rows ! n)) = Some k" for n
    using that owned_member[of "rows ! n" rows k] by simp
  from Cons.prems(1) have d: "distinct (owned rows)"
    by (simp add: owned_Cons_row)
  have head: "k \<notin> set (owned rows)" if "dp3 (snd r) = Some k"
    using that Cons.prems(1) by (simp add: owned_Cons_row)
  show ?case
  proof (cases i)
    case 0
    show ?thesis
    proof (cases j)
      case 0
      with \<open>i = 0\<close> show ?thesis by simp
    next
      case (Suc j')
      with Cons.prems 0 tail[of j'] head show ?thesis by simp
    qed
  next
    case (Suc i')
    show ?thesis
    proof (cases j)
      case 0
      with Cons.prems Suc tail[of i'] head show ?thesis by simp
    next
      case (Suc j')
      with Cons.prems \<open>i = Suc i'\<close> Cons.IH[OF d, of i' j'] show ?thesis by simp
    qed
  qed
qed

lemma fill_loop_owned:
  "fill_loop p i rows s = (rows', n, s') \<Longrightarrow>
     distinct (owned rows')
     \<and> (\<forall>k \<in> set (owned rows'). i + p * SENSORS_PER_PAGE \<le> int k \<and> k < length (sensors s))
     \<and> length (sensors s') = length (sensors s)
     \<and> map (\<lambda>r. d1 (snd r)) rows' = map (\<lambda>r. d1 (snd r)) rows"
proof (induction rows arbitrary: i s rows' n s')
  case Nil
  then show ?case by (simp add: owned_def)
next
  case (Cons row rows)
  obtain t d where row: "row = (t, d)" by (cases row)
  show ?case
  proof (cases "0 \<le> i + p * SENSORS_PER_PAGE \<and> i + p * SENSORS_PER_PAGE < int (length (sensors s))")
    case True
    let ?s1 = "set_screen_buf (nat (i + p * SENSORS_PER_PAGE)) ''N/A'' s"
    obtain r2 n2 s2 where r: "fill_loop p (i + 1) rows ?s1 = (r2, n2, s2)"
      by (cases "fill_loop p (i + 1) rows ?s1")
    from Cons.prems row True r have res: "s' = s2"
      "rows' = (t, d\<lparr>dp3 := Some (nat (i + p * SENSORS_PER_PAGE))\<rparr>) # r2"
      by (simp_all add: Let_def)
    have l: "length (sensors ?s1) = length (sensors s)"
      by (simp add: set_screen_buf_def)
    from Cons.IH[OF r] l have ih: "distinct (owned r2)"
      "\<forall>k \<in> set (owned r2). i + 1 + p * SENSORS_PER_PAGE \<le> int k \<and> k < length (sensors s)"
      "length (sensors s2) = length (sensors s)"
      "map (\<lambda>r. d1 (snd r)) r2 = map (\<lambda>r. d1 (snd r)) rows"
      by simp_all
    have "nat (i + p * SENSORS_PER_PAGE) \<notin> set (owned r2)"
    proof
      assume "nat (i + p * SENSORS_PER_PAGE) \<in> set (owned r2)"
      with ih(2) have "i + 1 + p * SENSORS_PER_PAGE \<le> int (nat (i + p * SENSORS_PER_PAGE))"
        by blast
      with True show False by simp
    qed
    with ih True row show ?thesis
      unfolding res by (auto simp add: owned_Cons)
  next
    case False
    obtain r2 n2 s2 where r: "fill_loop p i rows s = (r2, n2, s2)"
      by (cases "fill_loop p i rows s")
    from Cons.prems row False r have res: "s' = s2"
      "rows' = (t, d\<lparr>dp3 := None, D_DIRTY := True\<rparr>) # r2"
      by (simp_all add: Let_def)
    with Cons.IH[OF r] row show ?thesis
      by (simp add: owned_Cons)
  qed
qed

text \<open>\<open>fill_sensors\<close> leaves the dialog with its sensor controls pointing to different rows
  of \<open>sensors[]\<close>; the numbers of the controls are those of the initialiser of
  \<open>sensor_dialog[]\<close>, 0 to 8.\<close>

lemma fill_sensors_page_rows:
  assumes "fill_sensors p rows s = (rows', s')"
    and "distinct (map (\<lambda>r. d1 (snd r)) rows)" and "list_all (\<lambda>r. 0 \<le> d1 (snd r)) rows"
  shows "page_rows rows' s'"
proof -
  obtain r1 n1 s1 where f: "fill_loop p 0 rows s = (r1, n1, s1)"
    by (cases "fill_loop p 0 rows s")
  with assms(1) have res: "rows' = r1" "s' = s1\<lparr>sensors_on_page := n1\<rparr>"
    by (simp_all add: fill_sensors_def del: fill_loop.simps)
  from fill_loop_owned[OF f] have o: "distinct (owned r1)"
    "\<forall>k \<in> set (owned r1). k < length (sensors s)" "length (sensors s1) = length (sensors s)"
    "map (\<lambda>r. d1 (snd r)) r1 = map (\<lambda>r. d1 (snd r)) rows"
    by simp_all
  have "list_all (\<lambda>r. 0 \<le> d1 (snd r)) r1 = list_all (\<lambda>n. 0 \<le> n) (map (\<lambda>r. d1 (snd r)) r1)"
    by (simp add: list_all_iff)
  also have "\<dots> = list_all (\<lambda>r. 0 \<le> d1 (snd r)) rows"
    unfolding o(4) by (simp add: list_all_iff)
  finally have "list_all (\<lambda>r. 0 \<le> d1 (snd r)) r1" using assms(3) by simp
  with o assms(2) show ?thesis
    unfolding res by (simp add: page_rows_def list_all_iff)
qed

text \<open>A toggle broadcast keeps the dialog so.\<close>

lemma broadcast_toggle_page_rows:
  assumes "page_rows rows s" and "0 \<le> c" and "broadcast_toggle c rows s = (rows', s')"
  shows "page_rows rows' s'"
proof -
  from assms(1) have pr: "distinct (map (\<lambda>r. d1 (snd r)) rows)"
    "list_all (\<lambda>r. 0 \<le> d1 (snd r)) rows" "distinct (owned rows)"
    "list_all (\<lambda>k. k < length (sensors s)) (owned rows)"
    by (simp_all add: page_rows_def)
  from broadcast_toggle_effect[OF pr(3,4) assms(2,3)] have e:
    "length (sensors s') = length (sensors s)"
    "map (\<lambda>r. d1 (snd r)) rows' = map (\<lambda>r. d1 (snd r)) rows"
    "map (\<lambda>r. dp3 (snd r)) rows' = map (\<lambda>r. dp3 (snd r)) rows"
    by blast+
  have o: "owned rows' = owned rows" using e(3) by (rule owned_map)
  have "list_all (\<lambda>r. 0 \<le> d1 (snd r)) rows' = list_all (\<lambda>n. 0 \<le> n) (map (\<lambda>r. d1 (snd r)) rows')"
    by (simp add: list_all_iff)
  also have "\<dots> = list_all (\<lambda>r. 0 \<le> d1 (snd r)) rows"
    unfolding e(2) by (simp add: list_all_iff)
  finally have "list_all (\<lambda>r. 0 \<le> d1 (snd r)) rows'" using pr(2) by simp
  with pr e o show ?thesis
    by (simp add: page_rows_def)
qed


text \<open>The broadcast of \<open>MSG_UPDATE\<close> keeps the dialog so as well; hence every page flip leaves
  it so.\<close>

lemma broadcast_update_rows:
  "broadcast_update rows s = (rows', s') \<Longrightarrow>
     map (\<lambda>r. d1 (snd r)) rows' = map (\<lambda>r. d1 (snd r)) rows
     \<and> map (\<lambda>r. dp3 (snd r)) rows' = map (\<lambda>r. dp3 (snd r)) rows
     \<and> length (sensors s') = length (sensors s)"
proof (induction rows arbitrary: s rows' s')
  case Nil
  then show ?case by simp
next
  case (Cons row rows)
  obtain t d where row: "row = (t, d)" by (cases row)
  obtain t' s1 where t: "toggle_update t s = (t', s1)" by (cases "toggle_update t s")
  obtain d' s2 where d: "sensor_update d s1 = (d', s2)" by (cases "sensor_update d s1")
  obtain rows2 s3 where r: "broadcast_update rows s2 = (rows2, s3)"
    by (cases "broadcast_update rows s2")
  from Cons.prems row t d r have res: "s' = s3" "rows' = (t', d') # rows2" by simp_all
  from t have f1: "sensors s1 = sensors s"
    by (auto simp: toggle_update_def split: if_splits)
  from d have f2: "d1 d' = d1 d" "dp3 d' = dp3 d" "length (sensors s2) = length (sensors s1)"
    by (auto simp: sensor_update_def on_update_def after_switch_def set_screen_buf_def Let_def
        split: option.splits if_splits)
  from Cons.IH[OF r] f1 f2 row show ?case
    unfolding res by simp
qed

lemma page_flip_page_rows:
  assumes "page_flip dir rows s = (rows', s')"
    and "distinct (map (\<lambda>r. d1 (snd r)) rows)" and "list_all (\<lambda>r. 0 \<le> d1 (snd r)) rows"
  shows "page_rows rows' s'"
proof -
  define p where "p = (if dir = - 1 then current_page s - 1
               else if dir = 1 then current_page s + 1 else current_page s)"
  define p' where "p' = (if p < 0 then 0 else if p > last_page s then last_page s else p)"
  obtain r1 s1 where f: "fill_sensors p' rows (s\<lparr>current_page := p'\<rparr>) = (r1, s1)"
    by (cases "fill_sensors p' rows (s\<lparr>current_page := p'\<rparr>)")
  with assms(1) have b: "broadcast_update r1 s1 = (rows', s')"
    by (simp only: page_flip_def p_def p'_def Let_def prod.case)
  from fill_sensors_page_rows[OF f assms(2,3)] have pr: "page_rows r1 s1" .
  from broadcast_update_rows[OF b] have e:
    "map (\<lambda>r. d1 (snd r)) rows' = map (\<lambda>r. d1 (snd r)) r1"
    "map (\<lambda>r. dp3 (snd r)) rows' = map (\<lambda>r. dp3 (snd r)) r1"
    "length (sensors s') = length (sensors s1)"
    by simp_all
  have o: "owned rows' = owned r1" using e(2) by (rule owned_map)
  have "list_all (\<lambda>r. 0 \<le> d1 (snd r)) rows' = list_all (\<lambda>n. 0 \<le> n) (map (\<lambda>r. d1 (snd r)) rows')"
    by (simp add: list_all_iff)
  also have "\<dots> = list_all (\<lambda>r. 0 \<le> d1 (snd r)) r1"
    unfolding e(1) by (simp add: list_all_iff)
  finally have "list_all (\<lambda>r. 0 \<le> d1 (snd r)) rows' = list_all (\<lambda>r. 0 \<le> d1 (snd r)) r1" .
  with pr e o show ?thesis
    by (simp add: page_rows_def)
qed


text \<open>
  Claim C9, as the code has it. A toggle of a sensor is the broadcast of \<open>MSG_TOGGLE\<close> with
  the number of its control to every control of the dialog. After two such broadcasts the
  sensor's \<open>enabled\<close> field is the negation of the \<open>D_DISABLED\<close> flag that its control had
  before the first: it is the original value exactly when field and flag agreed before. No
  other sensor's \<open>enabled\<close> field changes. But each broadcast also reaches the controls of
  the other sensors, and a control that is disabled writes "not monitoring" into its
  sensor's \<open>screen_buf\<close> on the way out of \<open>sensor_proc\<close>: the \<open>screen_buf\<close> of another sensor
  of the page is left as it is only if its control is enabled or it reads "not monitoring"
  already. The sensors that no control of the dialog points to are not touched.
\<close>

theorem toggle_twice:
  assumes "page_rows rows s" and "(t, d) \<in> set rows" and "dp3 d = Some k"
  shows "case broadcast_toggle (d1 d) rows s of (rows1, s1) \<Rightarrow>
         case broadcast_toggle (d1 d) rows1 s1 of (rows2, s2) \<Rightarrow>
           enabled (sensors s1 ! k) = D_DISABLED d
         \<and> enabled (sensors s2 ! k) = (\<not> D_DISABLED d)
         \<and> (enabled (sensors s2 ! k) = enabled (sensors s ! k))
             = (enabled (sensors s ! k) = (\<not> D_DISABLED d))
         \<and> (\<forall>r \<in> set rows. \<forall>j. dp3 (snd r) = Some j \<and> j \<noteq> k \<longrightarrow>
                enabled (sensors s1 ! j) = enabled (sensors s ! j)
              \<and> enabled (sensors s2 ! j) = enabled (sensors s ! j)
              \<and> screen_buf (sensors s1 ! j) =
                  (if D_DISABLED (snd r) then ''not monitoring'' else screen_buf (sensors s ! j))
              \<and> screen_buf (sensors s2 ! j) = screen_buf (sensors s1 ! j))
         \<and> (\<forall>j. j \<notin> set (owned rows) \<longrightarrow>
                sensors s1 ! j = sensors s ! j \<and> sensors s2 ! j = sensors s ! j)"
proof -
  define c where "c = d1 d"
  obtain rows1 s1 where b1: "broadcast_toggle c rows s = (rows1, s1)"
    by (cases "broadcast_toggle c rows s")
  obtain rows2 s2 where b2: "broadcast_toggle c rows1 s1 = (rows2, s2)"
    by (cases "broadcast_toggle c rows1 s1")
  from assms(1) have pr: "distinct (map (\<lambda>r. d1 (snd r)) rows)"
    "list_all (\<lambda>r. 0 \<le> d1 (snd r)) rows" "distinct (owned rows)"
    "list_all (\<lambda>k. k < length (sensors s)) (owned rows)"
    by (simp_all add: page_rows_def)
  from pr(2) assms(2) have c0: "0 \<le> c"
    by (auto simp add: c_def list_all_iff)
  note e1 = broadcast_toggle_effect[OF pr(3,4) c0 b1]
  from e1 have m1: "length (sensors s1) = length (sensors s)"
    "map (\<lambda>r. d1 (snd r)) rows1 = map (\<lambda>r. d1 (snd r)) rows"
    "map (\<lambda>r. dp3 (snd r)) rows1 = map (\<lambda>r. dp3 (snd r)) rows"
    "map (\<lambda>r. D_DISABLED (snd r)) rows1 =
       map (\<lambda>r. if dp3 (snd r) \<noteq> None \<and> d1 (snd r) = c
                 then \<not> D_DISABLED (snd r) else D_DISABLED (snd r)) rows"
    "\<And>j. j \<notin> set (owned rows) \<Longrightarrow> sensors s1 ! j = sensors s ! j"
    "\<And>r k. r \<in> set rows \<Longrightarrow> dp3 (snd r) = Some k \<Longrightarrow>
        enabled (sensors s1 ! k) =
          (if d1 (snd r) = c then D_DISABLED (snd r) else enabled (sensors s ! k))
      \<and> screen_buf (sensors s1 ! k) =
          (if d1 (snd r) = c
           then (if D_DISABLED (snd r) then ''N/A'' else ''not monitoring'')
           else if D_DISABLED (snd r) then ''not monitoring''
           else screen_buf (sensors s ! k))"
    by blast+
  have o1: "owned rows1 = owned rows" using m1(3) by (rule owned_map)
  have l1: "length rows1 = length rows" using m1(2) by (rule map_eq_imp_length_eq)
  from pr(3,4) o1 m1(1) have pr1: "distinct (owned rows1)"
    "list_all (\<lambda>k. k < length (sensors s1)) (owned rows1)"
    by simp_all
  note e2 = broadcast_toggle_effect[OF pr1 c0 b2]
  from e2 have m2:
    "\<And>j. j \<notin> set (owned rows1) \<Longrightarrow> sensors s2 ! j = sensors s1 ! j"
    "\<And>r k. r \<in> set rows1 \<Longrightarrow> dp3 (snd r) = Some k \<Longrightarrow>
        enabled (sensors s2 ! k) =
          (if d1 (snd r) = c then D_DISABLED (snd r) else enabled (sensors s1 ! k))
      \<and> screen_buf (sensors s2 ! k) =
          (if d1 (snd r) = c
           then (if D_DISABLED (snd r) then ''N/A'' else ''not monitoring'')
           else if D_DISABLED (snd r) then ''not monitoring''
           else screen_buf (sensors s1 ! k))"
    by blast+
  \<comment> \<open>the row of a sensor after the first broadcast\<close>
  have after: "\<exists>r1 \<in> set rows1. dp3 (snd r1) = Some j \<and> d1 (snd r1) = d1 (snd r)
        \<and> D_DISABLED (snd r1) = (if d1 (snd r) = c then \<not> D_DISABLED (snd r) else D_DISABLED (snd r))"
    if "r \<in> set rows" "dp3 (snd r) = Some j" for r j
  proof -
    from that(1) obtain i where i: "i < length rows" "rows ! i = r"
      by (auto simp add: in_set_conv_nth)
    from i(1) l1 have "rows1 ! i \<in> set rows1" by simp
    moreover have "dp3 (snd (rows1 ! i)) = Some j"
      using map_eq_nth[OF m1(3) i(1)] i(2) that(2) by simp
    moreover have "d1 (snd (rows1 ! i)) = d1 (snd r)"
      using map_eq_nth[OF m1(2) i(1)] i(2) by simp
    moreover have "D_DISABLED (snd (rows1 ! i)) =
        (if d1 (snd r) = c then \<not> D_DISABLED (snd r) else D_DISABLED (snd r))"
      using map_eq_nth[OF m1(4) i(1)] i(2) that(2) by simp
    ultimately show ?thesis by blast
  qed
  \<comment> \<open>the control of another sensor has another number\<close>
  have other: "d1 (snd r) \<noteq> c" if "r \<in> set rows" "dp3 (snd r) = Some j" "j \<noteq> k" for r j
  proof
    assume eq: "d1 (snd r) = c"
    from that(1) obtain i where i: "i < length rows" "rows ! i = r"
      by (auto simp add: in_set_conv_nth)
    from assms(2) obtain i0 where i0: "i0 < length rows" "rows ! i0 = (t, d)"
      by (auto simp add: in_set_conv_nth)
    from eq i i0 have "map (\<lambda>r. d1 (snd r)) rows ! i = map (\<lambda>r. d1 (snd r)) rows ! i0"
      by (simp add: c_def)
    with pr(1) i(1) i0(1) have "i = i0"
      by (auto simp add: distinct_conv_nth)
    with i(2) i0(2) that(2,3) assms(3) show False by auto
  qed
  have own: "enabled (sensors s1 ! k) = D_DISABLED d"
    using m1(6)[OF assms(2), of k] assms(3) by (simp add: c_def)
  from after[OF assms(2), of k] assms(3) obtain r1 where r1: "r1 \<in> set rows1"
    "dp3 (snd r1) = Some k" "d1 (snd r1) = c" "D_DISABLED (snd r1) = (\<not> D_DISABLED d)"
    by (auto simp add: c_def)
  have own2: "enabled (sensors s2 ! k) = (\<not> D_DISABLED d)"
    using m2(2)[OF r1(1,2)] r1(3,4) by simp
  have others: "enabled (sensors s1 ! j) = enabled (sensors s ! j)
              \<and> enabled (sensors s2 ! j) = enabled (sensors s ! j)
              \<and> screen_buf (sensors s1 ! j) =
                  (if D_DISABLED (snd r) then ''not monitoring'' else screen_buf (sensors s ! j))
              \<and> screen_buf (sensors s2 ! j) = screen_buf (sensors s1 ! j)"
    if "r \<in> set rows" "dp3 (snd r) = Some j" "j \<noteq> k" for r j
  proof -
    from other[OF that] have ne: "d1 (snd r) \<noteq> c" .
    from after[OF that(1,2)] ne obtain r' where r': "r' \<in> set rows1" "dp3 (snd r') = Some j"
      "d1 (snd r') \<noteq> c" "D_DISABLED (snd r') = D_DISABLED (snd r)"
      by auto
    from m1(6)[OF that(1,2)] m2(2)[OF r'(1,2)] ne r'(3,4) show ?thesis
      by simp
  qed
  have rest: "sensors s1 ! j = sensors s ! j \<and> sensors s2 ! j = sensors s ! j"
    if "j \<notin> set (owned rows)" for j
    using m1(5)[OF that] m2(1)[of j] that o1 by simp
  from own own2 others rest show ?thesis
    unfolding c_def[symmetric] b1 b2 prod.case by blast
qed

text \<open>After a toggle of a control its flag and its sensor's \<open>enabled\<close> field agree; so a
  sensor that has been toggled before is restored by two further toggles.\<close>

lemma toggle_makes_flag_agree:
  assumes "page_rows rows s" and "(t, d) \<in> set rows" and "dp3 d = Some k"
    and "broadcast_toggle (d1 d) rows s = (rows', s')"
    and "(t', d') \<in> set rows'" and "dp3 d' = Some k"
  shows "enabled (sensors s' ! k) = (\<not> D_DISABLED d')"
proof -
  from assms(1) have pr: "distinct (map (\<lambda>r. d1 (snd r)) rows)"
    "list_all (\<lambda>r. 0 \<le> d1 (snd r)) rows" "distinct (owned rows)"
    "list_all (\<lambda>k. k < length (sensors s)) (owned rows)"
    by (simp_all add: page_rows_def)
  from pr(2) assms(2) have c0: "0 \<le> d1 d"
    by (auto simp add: list_all_iff)
  from broadcast_toggle_effect[OF pr(3,4) c0 assms(4)] have e:
    "map (\<lambda>r. d1 (snd r)) rows' = map (\<lambda>r. d1 (snd r)) rows"
    "map (\<lambda>r. dp3 (snd r)) rows' = map (\<lambda>r. dp3 (snd r)) rows"
    "map (\<lambda>r. D_DISABLED (snd r)) rows' =
       map (\<lambda>r. if dp3 (snd r) \<noteq> None \<and> d1 (snd r) = d1 d
                 then \<not> D_DISABLED (snd r) else D_DISABLED (snd r)) rows"
    "\<And>r k. r \<in> set rows \<Longrightarrow> dp3 (snd r) = Some k \<Longrightarrow>
        enabled (sensors s' ! k) =
          (if d1 (snd r) = d1 d then D_DISABLED (snd r) else enabled (sensors s ! k))"
    by blast+
  have l: "length rows' = length rows" using e(1) by (rule map_eq_imp_length_eq)
  from assms(5) obtain i where i: "i < length rows" "rows' ! i = (t', d')"
    using l by (auto simp add: in_set_conv_nth)
  from assms(2) obtain i0 where i0: "i0 < length rows" "rows ! i0 = (t, d)"
    by (auto simp add: in_set_conv_nth)
  have "dp3 (snd (rows ! i)) = Some k"
    using map_eq_nth[OF e(2) i(1)] i(2) assms(6) by simp
  then have "i = i0"
    using owner_unique[OF pr(3) i(1) i0(1), of k] i0(2) assms(3) by simp
  with i0(2) have same: "rows ! i = (t, d)" by simp
  have "D_DISABLED d' = (\<not> D_DISABLED d)"
    using map_eq_nth[OF e(3) i(1)] i(2) same assms(3) by simp
  moreover have "enabled (sensors s' ! k) = D_DISABLED d"
    using e(4)[OF assms(2), of k] assms(3) by simp
  ultimately show ?thesis by simp
qed

text \<open>The settle cycle after \<open>MSG_START\<close> and \<open>MSG_UPDATE\<close>: the control is marked (\<open>d2\<close>)
  exactly when its flag disagrees with the sensor's \<open>enabled\<close> field, a marked control
  broadcasts a toggle of itself when it is drawn, and that toggle brings the flag to the
  field and leaves the field as it is.\<close>

lemma update_marks_disagreement:
  assumes "on_update d k s = (d', s')" and "d2 d = 0"
  shows "(d2 d' \<noteq> 0) = (enabled (sensors s ! k) = D_DISABLED d)"
    and "sensors s' = sensors s" and "D_DISABLED d' = D_DISABLED d" and "d1 d' = d1 d"
  using assms by (auto simp add: on_update_def Let_def split: if_splits)

lemma draw_broadcasts_toggle:
  "d2 d \<noteq> 0 \<Longrightarrow> on_draw d s = (d\<lparr>d2 := 0\<rparr>, emit (Broadcast MSG_TOGGLE (d1 d)) s)"
  by (simp add: on_draw_def)

lemma settle_toggle_keeps_enabled:
  assumes "page_rows rows s" and "(t, d) \<in> set rows" and "dp3 d = Some k"
    and "enabled (sensors s ! k) = D_DISABLED d"
    and "broadcast_toggle (d1 d) rows s = (rows', s')"
  shows "enabled (sensors s' ! k) = enabled (sensors s ! k)"
proof -
  from assms(1) have pr: "list_all (\<lambda>r. 0 \<le> d1 (snd r)) rows" "distinct (owned rows)"
    "list_all (\<lambda>k. k < length (sensors s)) (owned rows)"
    by (simp_all add: page_rows_def)
  from pr(1) assms(2) have c0: "0 \<le> d1 d"
    by (auto simp add: list_all_iff)
  from broadcast_toggle_effect[OF pr(2,3) c0 assms(5)] assms(2,3) have
    "enabled (sensors s' ! k) = D_DISABLED d"
    by fastforce
  with assms(4) show ?thesis by simp
qed


text \<open>The sixth sensor of a page of nine enabled sensors has been switched off. The third
  is switched off and on again: it is enabled as before; the sixth stays off and shows
  "not monitoring" throughout; the fourth shows what it showed.\<close>

theorem toggle_twice_witness:
  "let rows0 = fst (broadcast_toggle 5 page_of_nine fresh_page);
       s0 = snd (broadcast_toggle 5 page_of_nine fresh_page);
       rows1 = fst (broadcast_toggle 2 rows0 s0);
       s1 = snd (broadcast_toggle 2 rows0 s0);
       s2 = snd (broadcast_toggle 2 rows1 s1)
   in page_rows rows0 s0
      \<and> enabled (sensors s0 ! 2) \<and> \<not> enabled (sensors s1 ! 2) \<and> enabled (sensors s2 ! 2)
      \<and> \<not> enabled (sensors s0 ! 5) \<and> \<not> enabled (sensors s1 ! 5) \<and> \<not> enabled (sensors s2 ! 5)
      \<and> screen_buf (sensors s0 ! 5) = ''not monitoring''
      \<and> screen_buf (sensors s1 ! 5) = ''not monitoring''
      \<and> screen_buf (sensors s2 ! 5) = ''not monitoring''
      \<and> enabled (sensors s2 ! 3)
      \<and> screen_buf (sensors s1 ! 3) = screen_buf (sensors s0 ! 3)
      \<and> screen_buf (sensors s2 ! 3) = screen_buf (sensors s0 ! 3)"
proof -
  define rows0 where "rows0 = fst (broadcast_toggle 5 page_of_nine fresh_page)"
  define s0 where "s0 = snd (broadcast_toggle 5 page_of_nine fresh_page)"
  note run = rows0_def s0_def sensor_toggle_def on_toggle_def toggle_toggle_def
    after_switch_def set_screen_buf_def set_enabled_def page_of_nine_def later_rows_def
    upt_rec control_def button_def fresh_page_def start_session_def engine_rpm_sensor_def
    Let_def
  have h: "page_rows rows0 s0" "(button 2, control 2) \<in> set rows0" "dp3 (control 2) = Some 2"
    by (simp_all add: run page_rows_def owned_def)
  have c: "d1 (control 2) = 2"
    by (simp add: control_def)
  have r: "(button 3, control 3) \<in> set rows0" "dp3 (control 3) = Some 3"
    "\<not> D_DISABLED (control 3)"
    "((button 5)\<lparr>d2 := 0, dp := ''OFF''\<rparr>, off_control 5) \<in> set rows0"
    "dp3 (off_control 5) = Some 5" "D_DISABLED (off_control 5)"
    by (simp_all add: run off_control_def)
  have p: "enabled (sensors s0 ! 2)" "enabled (sensors s0 ! 3)" "\<not> enabled (sensors s0 ! 5)"
    "screen_buf (sensors s0 ! 5) = ''not monitoring''"
    by (simp_all add: run eval_nat_numeral)
  from toggle_twice[OF h] h(1) r p show ?thesis
    unfolding c rows0_def[symmetric] s0_def[symmetric] Let_def
    by (fastforce simp add: case_prod_beta control_def)
qed


text \<open>The claim as stated, "neither toggle alters any other sensor's displayValue", fails
  for a sensor that is switched off and shows "N/A". The page has just been opened. The
  first control sends its request. The user opens the options dialog and leaves it with a
  port that cannot be opened, then switches the first sensor off: it shows "not
  monitoring". The request timer expires; since the port is not ready, the call for the
  first control comes to the time-out block although the control is disabled, writes "N/A"
  and, the user ignoring the port alert, moves on. Now the user switches the second sensor
  off, and the display of the first changes from "N/A" to "not monitoring".\<close>

theorem toggle_twice_counterexample:
  "case sensor_proc quiet MSG_IDLE (control 0) 0 fresh_page of
     Inl e \<Rightarrow> False
   | Inr (r1, d1', s1) \<Rightarrow>
       (case broadcast_toggle 0 page_of_nine (options_proc (NOT_OPEN, METRIC) s1) of
          (rows2, s2) \<Rightarrow>
            (case sensor_proc timed_out_port_ignored MSG_IDLE (snd (rows2 ! 0)) 0 s2 of
               Inl e \<Rightarrow> False
             | Inr (r3, d3, s3) \<Rightarrow>
                 (case broadcast_toggle 1 rows2 s3 of
                    (rows4, s4) \<Rightarrow>
                      page_rows rows2 s3
                    \<and> snd (rows2 ! 0) = off_control 0
                    \<and> snd (rows2 ! 1) = control 1
                    \<and> screen_buf (sensors s2 ! 0) = ''not monitoring''
                    \<and> screen_buf (sensors s3 ! 0) = ''N/A''
                    \<and> screen_buf (sensors s4 ! 0) = ''not monitoring''
                    \<and> enabled (sensors s3 ! 1) \<and> \<not> enabled (sensors s4 ! 1))))"
  by (simp add: sensor_proc_def on_idle_def idle_tail_def on_time_out_def count_time_out_def
      after_switch_def advance_def next_sensor_def emit_def set_screen_buf_def set_enabled_def
      sensor_toggle_def on_toggle_def toggle_toggle_def options_proc_def display_options_def
      page_rows_def owned_def page_of_nine_def later_rows_def upt_rec control_def button_def
      off_control_def
      fresh_page_def start_session_def quiet_def timed_out_def timed_out_port_ignored_def
      engine_rpm_sensor_def SENSORS_TO_TIME_OUT_def Let_def)

section \<open>Properties of the page flip\<close>

lemma toggle_update_frame:
  "toggle_update t s = (t', s') \<Longrightarrow>
     page_reset s' = page_reset s \<and> retry_attempts s' = retry_attempts s
     \<and> avg_refresh_rate_accumulator s' = avg_refresh_rate_accumulator s
     \<and> sensors s' = sensors s"
  by (auto simp: toggle_update_def page_reset_def split: if_splits)

lemma sensor_update_frame:
  "sensor_update d s = (d', s') \<Longrightarrow>
     (page_reset s \<longrightarrow> page_reset s') \<and> retry_attempts s' = retry_attempts s
     \<and> avg_refresh_rate_accumulator s' = avg_refresh_rate_accumulator s"
  by (auto simp: sensor_update_def on_update_def after_switch_def page_reset_def
      set_screen_buf_def Let_def split: option.splits if_splits)

lemma sensor_update_first:
  "sensor_update d s = (d', s') \<Longrightarrow> d1 d = 0 \<Longrightarrow> dp3 d = Some k \<Longrightarrow> page_reset s'"
  by (auto simp: sensor_update_def on_update_def after_switch_def page_reset_def
      set_screen_buf_def Let_def split: option.splits if_splits)

lemma broadcast_update_frame:
  "broadcast_update rows s = (rows', s') \<Longrightarrow>
     (page_reset s \<longrightarrow> page_reset s') \<and> retry_attempts s' = retry_attempts s
     \<and> avg_refresh_rate_accumulator s' = avg_refresh_rate_accumulator s"
proof (induction rows arbitrary: s rows' s')
  case Nil
  then show ?case by simp
next
  case (Cons row rows)
  obtain t d where row: "row = (t, d)" by (cases row)
  obtain t' s1 where t: "toggle_update t s = (t', s1)" by (cases "toggle_update t s")
  obtain d' s2 where d: "sensor_update d s1 = (d', s2)" by (cases "sensor_update d s1")
  obtain rows2 s3 where r: "broadcast_update rows s2 = (rows2, s3)"
    by (cases "broadcast_update rows s2")
  from Cons.prems row t d r have s': "s' = s3" by simp
  from toggle_update_frame[OF t] sensor_update_frame[OF d] Cons.IH[OF r] s'
  show ?case by simp
qed

lemma broadcast_update_first:
  assumes "broadcast_update ((t, d) # rows) s = (rows', s')" "d1 d = 0" "dp3 d = Some k"
  shows "page_reset s'"
proof -
  obtain t' s1 where t: "toggle_update t s = (t', s1)" by (cases "toggle_update t s")
  obtain d' s2 where d: "sensor_update d s1 = (d', s2)" by (cases "sensor_update d s1")
  obtain rows2 s3 where r: "broadcast_update rows s2 = (rows2, s3)"
    by (cases "broadcast_update rows s2")
  from assms(1) t d r have s': "s' = s3" by simp
  from sensor_update_first[OF d assms(2,3)] broadcast_update_frame[OF r] s'
  show ?thesis by simp
qed

lemma fill_loop_frame:
  "fill_loop p i rows s = (rows', n, s') \<Longrightarrow>
     retry_attempts s' = retry_attempts s \<and> length (sensors s') = length (sensors s)
     \<and> num_of_sensors s' = num_of_sensors s
     \<and> avg_refresh_rate_accumulator s' = avg_refresh_rate_accumulator s
     \<and> map (d1 \<circ> snd) rows' = map (d1 \<circ> snd) rows"
proof (induction rows arbitrary: i s rows' n s')
  case Nil
  then show ?case by simp
next
  case (Cons row rows)
  obtain t d where row: "row = (t, d)" by (cases row)
  show ?case
  proof (cases "0 \<le> i + p * SENSORS_PER_PAGE \<and> i + p * SENSORS_PER_PAGE < int (length (sensors s))")
    case True
    let ?s1 = "set_screen_buf (nat (i + p * SENSORS_PER_PAGE)) ''N/A'' s"
    obtain r2 n2 s2 where r: "fill_loop p (i + 1) rows ?s1 = (r2, n2, s2)"
      by (cases "fill_loop p (i + 1) rows ?s1")
    from Cons.prems row True r have "s' = s2" "rows' = (t, d\<lparr>dp3 := Some (nat (i + p * SENSORS_PER_PAGE))\<rparr>) # r2"
      by (simp_all add: Let_def)
    with Cons.IH[OF r] row show ?thesis
      by (simp add: set_screen_buf_def)
  next
    case False
    obtain r2 n2 s2 where r: "fill_loop p i rows s = (r2, n2, s2)"
      by (cases "fill_loop p i rows s")
    from Cons.prems row False r have "s' = s2" "rows' = (t, d\<lparr>dp3 := None, D_DIRTY := True\<rparr>) # r2"
      by (simp_all add: Let_def)
    with Cons.IH[OF r] row show ?thesis
      by simp
  qed
qed

lemma fill_loop_first:
  assumes "fill_loop p 0 ((t, d) # rows) s = (rows', n, s')"
    and "0 \<le> p * SENSORS_PER_PAGE" "p * SENSORS_PER_PAGE < int (length (sensors s))"
  shows "\<exists>t' d' rest. rows' = (t', d') # rest \<and> d1 d' = d1 d \<and> dp3 d' = Some (nat (p * SENSORS_PER_PAGE))"
proof -
  let ?s1 = "set_screen_buf (nat (p * SENSORS_PER_PAGE)) ''N/A'' s"
  obtain r2 n2 s2 where r: "fill_loop p 1 rows ?s1 = (r2, n2, s2)"
    by (cases "fill_loop p 1 rows ?s1")
  with assms show ?thesis by (auto simp add: Let_def)
qed

lemma last_page_in_table:
  assumes "0 < num_of_sensors s"
  shows "0 \<le> last_page s \<and> last_page s * SENSORS_PER_PAGE < num_of_sensors s"
proof -
  let ?n = "num_of_sensors s"
  have "?n mod 9 \<noteq> 0 \<Longrightarrow> 0 \<le> ?n div 9 \<and> ?n div 9 * 9 < ?n"
    using assms by presburger
  moreover have "?n mod 9 = 0 \<Longrightarrow> 0 \<le> ?n div 9 - 1 \<and> (?n div 9 - 1) * 9 < ?n"
    using assms by presburger
  ultimately show ?thesis
    unfolding last_page_def SENSORS_PER_PAGE_def by auto
qed

lemma page_flip_keeps_retry_attempts:
  "retry_attempts (snd (page_flip dir rows s)) = retry_attempts s"
proof -
  define p where "p = (if dir = - 1 then current_page s - 1
               else if dir = 1 then current_page s + 1 else current_page s)"
  define p' where "p' = (if p < 0 then 0 else if p > last_page s then last_page s else p)"
  let ?s0 = "s\<lparr>current_page := p'\<rparr>"
  obtain rows1 n s1 where f: "fill_loop p' 0 rows ?s0 = (rows1, n, s1)"
    by (cases "fill_loop p' 0 rows ?s0")
  let ?s2 = "s1\<lparr>sensors_on_page := n\<rparr>"
  obtain rows2 s2 where b: "broadcast_update rows1 ?s2 = (rows2, s2)"
    by (cases "broadcast_update rows1 ?s2")
  have fs: "fill_sensors p' rows ?s0 = (rows1, ?s2)"
    using f by (simp add: fill_sensors_def del: fill_loop.simps)
  have "page_flip dir rows s =
          (let (rows1, s1) = fill_sensors p' rows ?s0 in broadcast_update rows1 s1)"
    by (simp only: page_flip_def p_def p'_def Let_def)
  then have "page_flip dir rows s = (rows2, s2)"
    using b by (simp only: fs Let_def prod.case)
  with fill_loop_frame[OF f] broadcast_update_frame[OF b] show ?thesis
    by simp
qed

text \<open>
  Claim C4, as the code has it. A page flip (the table is not empty, and the first row of
  the dialog holds the control with \<open>d1 = 0\<close>) sets the cursor to 0, clears both refresh
  rates, the tick counter and the time-out counter, and sets \<open>new_page\<close>; the retry counter
  keeps its value: no statement of \<open>MSG_UPDATE\<close> assigns \<open>retry_attempts\<close>.
\<close>

theorem page_flip_resets:
  assumes "0 < num_of_sensors s" and "num_of_sensors s = int (length (sensors s))"
    and "d1 d = 0"
  shows "let (rows', s') = page_flip dir ((t, d) # rows) s in
         current_sensor s' = 0 \<and> num_of_sensors_timed_out s' = 0
       \<and> inst_refresh_rate s' = Fin 0 \<and> avg_refresh_rate s' = Fin 0 \<and> refresh_time s' = 0
       \<and> new_page s'
       \<and> retry_attempts s' = retry_attempts s"
proof -
  define p where "p = (if dir = - 1 then current_page s - 1
               else if dir = 1 then current_page s + 1 else current_page s)"
  define p' where "p' = (if p < 0 then 0 else if p > last_page s then last_page s else p)"
  let ?s0 = "s\<lparr>current_page := p'\<rparr>"
  from last_page_in_table[OF assms(1)] have "0 \<le> p'" "p' \<le> last_page s"
    and lp: "last_page s * SENSORS_PER_PAGE < num_of_sensors s"
    by (auto simp: p'_def)
  then have "p' * SENSORS_PER_PAGE \<le> last_page s * SENSORS_PER_PAGE" "0 \<le> p' * SENSORS_PER_PAGE"
    by (simp_all add: SENSORS_PER_PAGE_def)
  with lp assms(2) have rng: "0 \<le> p' * SENSORS_PER_PAGE"
      "p' * SENSORS_PER_PAGE < int (length (sensors ?s0))"
    by simp_all
  obtain rows1 n s1 where f: "fill_loop p' 0 ((t, d) # rows) ?s0 = (rows1, n, s1)"
    by (cases "fill_loop p' 0 ((t, d) # rows) ?s0")
  from fill_loop_first[OF f rng] obtain t1 da rest where
    r1: "rows1 = (t1, da) # rest" "d1 da = d1 d" "dp3 da = Some (nat (p' * SENSORS_PER_PAGE))"
    by blast
  from fill_loop_frame[OF f] have fr: "retry_attempts s1 = retry_attempts s"
    by simp
  let ?s2 = "s1\<lparr>sensors_on_page := n\<rparr>"
  obtain rows2 s2 where b: "broadcast_update ((t1, da) # rest) ?s2 = (rows2, s2)"
    by (cases "broadcast_update ((t1, da) # rest) ?s2")
  have d0: "d1 da = 0"
    using r1(2) assms(3) by simp
  from broadcast_update_first[OF b d0 r1(3)] have pr: "page_reset s2" .
  from broadcast_update_frame[OF b] fr have fr2: "retry_attempts s2 = retry_attempts s"
    by simp
  have fs: "fill_sensors p' ((t, d) # rows) ?s0 = (rows1, ?s2)"
    using f by (simp add: fill_sensors_def del: fill_loop.simps)
  have "page_flip dir ((t, d) # rows) s =
          (let (rows1, s1) = fill_sensors p' ((t, d) # rows) ?s0 in broadcast_update rows1 s1)"
    by (simp only: page_flip_def p_def p'_def Let_def)
  then have "page_flip dir ((t, d) # rows) s = (rows2, s2)"
    using b r1(1) by (simp only: fs Let_def prod.case)
  with pr fr2 show ?thesis
    by (simp add: page_reset_def)
qed

text \<open>"Next" is pressed in the middle of polling the first page of a table of eleven
  sensors, with one retry left: everything the theorem names is reset, and one retry is
  left.\<close>

theorem page_flip_resets_witness:
  "let (rows', s') = page_flip 1 ((button 0, control 0) # later_rows) mid_poll in
     current_sensor s' = 0 \<and> num_of_sensors_timed_out s' = 0
   \<and> inst_refresh_rate s' = Fin 0 \<and> avg_refresh_rate s' = Fin 0 \<and> refresh_time s' = 0
   \<and> new_page s'
   \<and> retry_attempts s' = 1"
proof -
  have h: "0 < num_of_sensors mid_poll" "num_of_sensors mid_poll = int (length (sensors mid_poll))"
    "d1 (control 0) = 0"
    by (simp_all add: mid_poll_def start_session_def control_def)
  have r: "retry_attempts mid_poll = 1"
    by (simp add: mid_poll_def)
  from page_flip_resets[OF h, of 1 "button 0" later_rows] show ?thesis
    by (simp add: r)
qed

text \<open>The claim as stated has the retry counter reset to its maximum 3: in the same
  situation it is 1 after the flip, while the cursor, 4 before, is 0.\<close>

theorem page_flip_retry_counterexample:
  "retry_attempts (snd (page_flip 1 ((button 0, control 0) # later_rows) mid_poll)) = 1
   \<and> NUM_OF_RETRIES = 3
   \<and> current_sensor mid_poll = 4"
  by (simp add: page_flip_keeps_retry_attempts mid_poll_def NUM_OF_RETRIES_def)

section \<open>Properties of the retry policy\<close>

lemma calculate_refresh_rate_frame:
  "retry_attempts (calculate_refresh_rate st s) = retry_attempts s"
  "current_sensor (calculate_refresh_rate st s) = current_sensor s"
  "sensors_on_page (calculate_refresh_rate st s) = sensors_on_page s"
  "sensors (calculate_refresh_rate st s) = sensors s"
  "receiving_response (calculate_refresh_rate st s) = receiving_response s"
  "num_of_sensors_timed_out (calculate_refresh_rate st s) = num_of_sensors_timed_out s"
  "device_connected (calculate_refresh_rate st s) = device_connected s"
  "ignore_device_not_connected (calculate_refresh_rate st s) = ignore_device_not_connected s"
  "filter is_alert (trace (calculate_refresh_rate st s)) = filter is_alert (trace s)"
  "filter is_alert3 (trace (calculate_refresh_rate st s)) = filter is_alert3 (trace s)"
  by (simp_all add: calculate_refresh_rate_def take_sample_def emit_def Let_def)

lemma retry_alert_frame:
  "retry_attempts (retry_alert rt s) = retry_attempts s"
  "current_sensor (retry_alert rt s) = current_sensor s"
  "receiving_response (retry_alert rt s) = receiving_response s"
  "sensors (retry_alert rt s) = sensors s"
  by (simp_all add: retry_alert_def emit_def)

text \<open>The alert of each category, with the text of the source.\<close>

lemma retry_alert_category:
  "filter is_alert (trace (retry_alert BUS_BUSY s)) =
     filter is_alert (trace s) @ [Alert [''OBD Bus Busy: could not read sensor'']]"
  "rt = DATA_ERROR \<or> rt = DATA_ERROR2 \<Longrightarrow>
   filter is_alert (trace (retry_alert rt s)) =
     filter is_alert (trace s) @
       [Alert [''Data Error: there has been a loss of data.'',
               ''You may have a bad connection to the vehicle,'', ''check the cable.'']]"
  "rt = SERIAL_ERROR \<or> rt = RUBBISH \<Longrightarrow>
   filter is_alert (trace (retry_alert rt s)) =
     filter is_alert (trace s) @
       [Alert [''Serial Link Error: please check connection'',
               ''between computer and OBD interface.'']]"
  by (auto simp add: retry_alert_def emit_def)

lemma no_value_retryable:
  assumes "rt \<in> {BUS_BUSY, DATA_ERROR, DATA_ERROR2, SERIAL_ERROR, RUBBISH}"
  shows "no_value rt d k s =
     (let s1 = calculate_refresh_rate SENSOR_NA (set_screen_buf k ''N/A'' s) in
      if retry_attempts s > 0 then (D_O_K, d, s1\<lparr>retry_attempts := retry_attempts s - 1\<rparr>)
      else (D_REDRAWME, d, (retry_alert rt s1)\<lparr>retry_attempts := NUM_OF_RETRIES\<rparr>))"
  using assms
  by (auto simp add: no_value_def Let_def calculate_refresh_rate_frame set_screen_buf_def)

text \<open>The idle call for the current sensor when no request is outstanding: it sends the
  sensor's command and starts the request timer.\<close>

lemma idle_sends_command:
  assumes "\<not> reset_hardware s" and "dp3 d = Some k" and "d1 d = current_sensor s"
    and "comport_status s = READY" and "\<not> D_DISABLED d" and "\<not> receiving_response s"
    and "\<not> serial_time_out x"
  shows "sensor_proc x MSG_IDLE d c s =
           Inr (D_O_K, d,
                s\<lparr>new_page := False, receiving_response := True, vehicle_response := [],
                   trace := trace s @ [Send_command (command (sensors s ! k)), Start_serial_timer]\<rparr>)"
  using assms
  by (simp add: sensor_proc_def on_idle_def idle_tail_def after_switch_def emit_def)

text \<open>
  Claim C1, as the code has it. The prompt arrives for the current sensor and the response
  is classified as \<open>BUS_BUSY\<close>, \<open>DATA_ERROR\<close>, \<open>DATA_ERROR2\<close>, \<open>SERIAL_ERROR\<close> or \<open>RUBBISH\<close>.
  The cursor stays where it is and the control stops waiting, so that the next idle call
  sends the same command again. If the retry counter is positive, it is decremented and no
  alert is raised; if it is 0, the alert of the response's category is raised, and no
  other, and the counter is set to 3. In neither case does the cursor advance.
\<close>

theorem retry_policy:
  assumes "\<not> reset_hardware s" and "dp3 d = Some k" and "d1 d = current_sensor s"
    and "comport_status s = READY" and "\<not> D_DISABLED d"
    and "receiving_response s" and "\<not> new_page s"
    and "read_comport x = (PROMPT, buf)"
    and "length (vehicle_response s @ buf) < 512"
    and "fst (process_response x (command (sensors s ! k)) (vehicle_response s @ buf)) = rt"
    and "rt \<in> {BUS_BUSY, DATA_ERROR, DATA_ERROR2, SERIAL_ERROR, RUBBISH}"
  shows "case sensor_proc x MSG_IDLE d c s of
           Inl e \<Rightarrow> False
         | Inr (r, d', s') \<Rightarrow>
             current_sensor s' = current_sensor s
           \<and> \<not> receiving_response s'
           \<and> command (sensors s' ! k) = command (sensors s ! k)
           \<and> (if retry_attempts s > 0
              then r = D_O_K \<and> retry_attempts s' = retry_attempts s - 1 \<and> alerts s' = alerts s
              else r = D_REDRAWME \<and> retry_attempts s' = NUM_OF_RETRIES
                 \<and> alerts s' = alerts s @
                     [Alert
                       (if rt = BUS_BUSY then [''OBD Bus Busy: could not read sensor'']
                        else if rt = DATA_ERROR \<or> rt = DATA_ERROR2 then
                          [''Data Error: there has been a loss of data.'',
                           ''You may have a bad connection to the vehicle,'',
                           ''check the cable.'']
                        else
                          [''Serial Link Error: please check connection'',
                           ''between computer and OBD interface.''])])"
proof -
  let ?s1 = "emit Stop_serial_timer
                 (s\<lparr>device_connected := True, num_of_sensors_timed_out := 0,
                    receiving_response := False\<rparr>)"
  let ?s2 = "?s1\<lparr>vehicle_response := vehicle_response s @ buf\<rparr>"
  obtain rw where pr: "process_response x (command (sensors s ! k)) (vehicle_response s @ buf) = (rt, rw)"
    using assms(10) by (cases "process_response x (command (sensors s ! k)) (vehicle_response s @ buf)") auto
  let ?s3 = "?s2\<lparr>vehicle_response := rw\<rparr>"
  have nh: "rt \<noteq> HEX_DATA" using assms(11) by auto
  have "sensor_proc x MSG_IDLE d c s = on_prompt x buf d k s"
    using assms(1-6,8) by (simp add: sensor_proc_def on_idle_def)
  also have "\<dots> = Inr (no_value rt d k ?s3)"
    using assms(7,9) pr nh
    by (simp add: on_prompt_def append_response_def emit_def Let_def)
  finally have eq: "sensor_proc x MSG_IDLE d c s = Inr (no_value rt d k ?s3)" .
  have kc: "command (((sensors s)[k := (sensors s ! k)\<lparr>screen_buf := ''N/A''\<rparr>]) ! k) = command (sensors s ! k)"
    by (cases "k < length (sensors s)") (simp_all add: list_update_beyond)
  from assms(11) consider "rt = BUS_BUSY" | "rt = DATA_ERROR \<or> rt = DATA_ERROR2"
    | "rt = SERIAL_ERROR \<or> rt = RUBBISH"
    by auto
  then show ?thesis
  proof cases
    case 1
    show ?thesis
      unfolding eq no_value_retryable[OF assms(11)]
      using kc 1
      by (simp add: Let_def calculate_refresh_rate_frame retry_alert_frame
          retry_alert_category(1) emit_def set_screen_buf_def alerts_def)
  next
    case 2
    show ?thesis
      unfolding eq no_value_retryable[OF assms(11)]
      using kc 2 retry_alert_category(2)[OF 2]
      by (auto simp add: Let_def calculate_refresh_rate_frame retry_alert_frame
          emit_def set_screen_buf_def alerts_def)
  next
    case 3
    show ?thesis
      unfolding eq no_value_retryable[OF assms(11)]
      using kc 3 retry_alert_category(3)[OF 3]
      by (auto simp add: Let_def calculate_refresh_rate_frame retry_alert_frame
          emit_def set_screen_buf_def alerts_def)
  qed
qed

text \<open>A request is outstanding with two retries left and the response is rubbish: the
  counter goes to 1 without an alert. With no retry left, a response of each category
  raises its own alert and nothing else, the counter is 3, and the cursor is still on the
  first control.\<close>

theorem retry_policy_witness:
  "(case sensor_proc (prompt_with RUBBISH ''?>'') MSG_IDLE (control 0) 0 (awaiting 2) of
      Inl e \<Rightarrow> False
    | Inr (r, d', s') \<Rightarrow>
        r = D_O_K \<and> current_sensor s' = 0 \<and> \<not> receiving_response s'
      \<and> retry_attempts s' = 1 \<and> alerts s' = [])
   \<and> (case sensor_proc (prompt_with RUBBISH ''?>'') MSG_IDLE (control 0) 0 (awaiting 0) of
      Inl e \<Rightarrow> False
    | Inr (r, d', s') \<Rightarrow>
        r = D_REDRAWME \<and> current_sensor s' = 0 \<and> \<not> receiving_response s'
      \<and> retry_attempts s' = 3
      \<and> alerts s' = [Alert [''Serial Link Error: please check connection'',
                             ''between computer and OBD interface.'']])
   \<and> (case sensor_proc (prompt_with BUS_BUSY ''?>'') MSG_IDLE (control 0) 0 (awaiting 0) of
      Inl e \<Rightarrow> False
    | Inr (r, d', s') \<Rightarrow>
        current_sensor s' = 0 \<and> retry_attempts s' = 3
      \<and> alerts s' = [Alert [''OBD Bus Busy: could not read sensor'']])
   \<and> (case sensor_proc (prompt_with DATA_ERROR2 ''?>'') MSG_IDLE (control 0) 0 (awaiting 0) of
      Inl e \<Rightarrow> False
    | Inr (r, d', s') \<Rightarrow>
        current_sensor s' = 0 \<and> retry_attempts s' = 3
      \<and> alerts s' = [Alert [''Data Error: there has been a loss of data.'',
                             ''You may have a bad connection to the vehicle,'',
                             ''check the cable.'']])"
proof -
  have h: "\<not> reset_hardware (awaiting n)" "dp3 (control 0) = Some 0"
    "d1 (control 0) = current_sensor (awaiting n)" "comport_status (awaiting n) = READY"
    "\<not> D_DISABLED (control 0)" "receiving_response (awaiting n)" "\<not> new_page (awaiting n)"
    "read_comport (prompt_with rt ''?>'') = (PROMPT, ''?>'')"
    "length (vehicle_response (awaiting n) @ ''?>'') < 512"
    "fst (process_response (prompt_with rt ''?>'') (command (sensors (awaiting n) ! 0))
            (vehicle_response (awaiting n) @ ''?>'')) = rt"
    for n rt
    by (simp_all add: awaiting_def fresh_page_def start_session_def control_def
        prompt_with_def quiet_def)
  have m: "RUBBISH \<in> {BUS_BUSY, DATA_ERROR, DATA_ERROR2, SERIAL_ERROR, RUBBISH}"
    "BUS_BUSY \<in> {BUS_BUSY, DATA_ERROR, DATA_ERROR2, SERIAL_ERROR, RUBBISH}"
    "DATA_ERROR2 \<in> {BUS_BUSY, DATA_ERROR, DATA_ERROR2, SERIAL_ERROR, RUBBISH}"
    by simp_all
  have v: "current_sensor (awaiting n) = 0" "retry_attempts (awaiting n) = n"
    "alerts (awaiting n) = []" for n
    by (simp_all add: awaiting_def fresh_page_def start_session_def alerts_def)
  from retry_policy[OF h m(1), of 2 0] retry_policy[OF h m(1), of 0 0]
    retry_policy[OF h m(2), of 0 0] retry_policy[OF h m(3), of 0 0]
  show ?thesis
    by (auto simp add: v NUM_OF_RETRIES_def split: sum.splits)
qed

text \<open>The claim as stated fails twice. Three consecutive exchanges classified as rubbish,
  starting with the full counter, raise no alert: they leave the counter at 0, not at its
  maximum. The fourth raises the serial-link alert and resets the counter, and the cursor
  is still on the first control, where the claim has it advance to the second.\<close>

theorem retry_policy_counterexample:
  "map_sum id (\<lambda>s. (alerts s, retry_attempts s, current_sensor s, next_sensor s))
     (idle_calls (exchange RUBBISH @ exchange RUBBISH @ exchange RUBBISH) fresh_page)
   = Inr ([], 0, 0, 1)
   \<and> map_sum id (\<lambda>s. (alerts s, retry_attempts s, current_sensor s, next_sensor s))
     (idle_calls (exchange RUBBISH @ exchange RUBBISH @ exchange RUBBISH @ exchange RUBBISH)
        fresh_page)
   = Inr ([Alert [''Serial Link Error: please check connection'',
                  ''between computer and OBD interface.'']], 3, 0, 1)"
  by (simp add: sensor_proc_def on_idle_def on_prompt_def no_value_def idle_tail_def
      after_switch_def append_response_def retry_alert_def advance_def next_sensor_def
      calculate_refresh_rate_def emit_def set_screen_buf_def Let_def
      fresh_page_def start_session_def control_def quiet_def prompt_with_def
      engine_rpm_sensor_def NUM_OF_RETRIES_def alerts_def exchange_def)

section \<open>Properties of the time-out policy\<close>

lemma port_frame_refl: "comport_status s \<noteq> NOT_OPEN \<Longrightarrow> port_frame s s"
  by (simp add: port_frame_def)

lemma port_frame_step:
  assumes "port_frame s1 s'"
    and "s1 = s\<lparr>trace := trace s1, comport_status := comport_status s1,
            system_of_measurements := system_of_measurements s1\<rparr>"
    and "filter is_alert3 (trace s1) = filter is_alert3 (trace s)"
  shows "port_frame s s'"
proof -
  from assms(1) have a: "s' = s1\<lparr>trace := trace s', comport_status := comport_status s',
            system_of_measurements := system_of_measurements s'\<rparr>"
    and b: "filter is_alert3 (trace s') = filter is_alert3 (trace s1)"
    and c: "comport_status s' \<noteq> NOT_OPEN"
    by (simp_all add: port_frame_def)
  have "s' = s\<lparr>trace := trace s', comport_status := comport_status s',
            system_of_measurements := system_of_measurements s'\<rparr>"
    by (subst a, subst assms(2)) simp
  with b c assms(3) show ?thesis
    by (simp add: port_frame_def)
qed

lemma port_not_ready_exits:
  "comport_status s \<noteq> NOT_OPEN \<or> list_ex (\<lambda>a. fst a \<noteq> 1) answers \<Longrightarrow>
   \<exists>s'. port_not_ready answers s = Some s' \<and> port_frame s s'"
proof (induction answers arbitrary: s)
  case Nil
  then show ?case by (simp add: port_frame_refl)
next
  case (Cons a answers)
  show ?case
  proof (cases "comport_status s = NOT_OPEN")
    case False
    then show ?thesis by (simp add: port_frame_refl)
  next
    case True
    let ?s1 = "emit (Alert [''Port is not ready.'',
                               ''Please check that you specified the correct port'',
                               ''and that no other application is using it'']) s"
    show ?thesis
    proof (cases "fst a = 1")
      case one: True
      let ?s2 = "display_options (snd a) ?s1"
      from Cons.prems True one have "list_ex (\<lambda>a. fst a \<noteq> 1) answers" by simp
      then obtain s' where r: "port_not_ready answers ?s2 = Some s'" and f: "port_frame ?s2 s'"
        using Cons.IH[of ?s2] by blast
      have "port_frame s s'"
        by (rule port_frame_step[OF f]) (simp_all add: display_options_def emit_def)
      with r True one show ?thesis by (simp add: Let_def)
    next
      case other: False
      let ?s2 = "?s1\<lparr>comport_status := USER_IGNORED\<rparr>"
      obtain s' where r: "port_not_ready answers ?s2 = Some s'" and f: "port_frame ?s2 s'"
        using Cons.IH[of ?s2] by auto
      have "port_frame s s'"
        by (rule port_frame_step[OF f]) (simp_all add: emit_def)
      with r True other show ?thesis by (simp add: Let_def)
    qed
  qed
qed


lemma count_time_out_fields:
  "sensors (count_time_out x k s) = (sensors s)[k := (sensors s ! k)\<lparr>screen_buf := ''N/A''\<rparr>]"
  "current_sensor (count_time_out x k s) = current_sensor s"
  "sensors_on_page (count_time_out x k s) = sensors_on_page s"
  "retry_attempts (count_time_out x k s) = retry_attempts s"
  "\<not> receiving_response (count_time_out x k s)"
  "num_of_sensors_timed_out (count_time_out x k s) =
     (if SENSORS_TO_TIME_OUT \<le> num_of_sensors_timed_out s then 0 else num_of_sensors_timed_out s + 1)"
  "device_connected (count_time_out x k s) =
     (if SENSORS_TO_TIME_OUT \<le> num_of_sensors_timed_out s then False else device_connected s)"
  "ignore_device_not_connected (count_time_out x k s) =
     (ignore_device_not_connected s
      \<or> (SENSORS_TO_TIME_OUT \<le> num_of_sensors_timed_out s \<and> alert3_choice x = 3))"
  "filter is_alert3 (trace (count_time_out x k s)) =
     filter is_alert3 (trace s) @
       (if SENSORS_TO_TIME_OUT \<le> num_of_sensors_timed_out s \<and> \<not> ignore_device_not_connected s
        then [device_alert] else [])"
  by (auto simp add: count_time_out_def Let_def set_screen_buf_def emit_def display_options_def
      device_alert_def)

lemma count_time_out_port:
  "user_leaves_port_loop x s \<Longrightarrow>
   comport_status (count_time_out x k s) \<noteq> NOT_OPEN \<or> list_ex (\<lambda>a. fst a \<noteq> 1) (port_answers x)"
  by (auto simp add: user_leaves_port_loop_def count_time_out_def Let_def set_screen_buf_def
      emit_def display_options_def)

lemma on_time_out_returns:
  assumes "user_leaves_port_loop x s"
  shows "\<exists>s'. on_time_out x d k s = Inr (D_REDRAWME, d, s')
      \<and> sensors s' = (sensors s)[k := (sensors s ! k)\<lparr>screen_buf := ''N/A''\<rparr>]
      \<and> current_sensor s' = next_sensor s
      \<and> \<not> receiving_response s'
      \<and> retry_attempts s' = retry_attempts s
      \<and> num_of_sensors_timed_out s' =
          (if SENSORS_TO_TIME_OUT \<le> num_of_sensors_timed_out s then 0
           else num_of_sensors_timed_out s + 1)
      \<and> device_connected s' =
          (if SENSORS_TO_TIME_OUT \<le> num_of_sensors_timed_out s then False else device_connected s)
      \<and> ignore_device_not_connected s' =
          (ignore_device_not_connected s
           \<or> (SENSORS_TO_TIME_OUT \<le> num_of_sensors_timed_out s \<and> alert3_choice x = 3))
      \<and> alert3s s' = alert3s s @
          (if SENSORS_TO_TIME_OUT \<le> num_of_sensors_timed_out s \<and> \<not> ignore_device_not_connected s
           then [device_alert] else [])"
proof -
  let ?s2 = "count_time_out x k s"
  from port_not_ready_exits[OF count_time_out_port[OF assms, of k]]
  obtain s3 where r: "port_not_ready (port_answers x) ?s2 = Some s3" and f: "port_frame ?s2 s3"
    by blast
  from f have e: "s3 = ?s2\<lparr>trace := trace s3, comport_status := comport_status s3,
            system_of_measurements := system_of_measurements s3\<rparr>"
    and a: "filter is_alert3 (trace s3) = filter is_alert3 (trace ?s2)"
    by (simp_all add: port_frame_def)
  have fields: "sensors s3 = sensors ?s2" "current_sensor s3 = current_sensor ?s2"
    "sensors_on_page s3 = sensors_on_page ?s2" "retry_attempts s3 = retry_attempts ?s2"
    "receiving_response s3 = receiving_response ?s2"
    "num_of_sensors_timed_out s3 = num_of_sensors_timed_out ?s2"
    "device_connected s3 = device_connected ?s2"
    "ignore_device_not_connected s3 = ignore_device_not_connected ?s2"
    by (subst e, simp)+
  have "on_time_out x d k s = Inr (D_REDRAWME, d, advance (emit Stop_serial_timer s3))"
    by (simp add: on_time_out_def r)
  then show ?thesis
    using fields a
    by (simp add: advance_def next_sensor_def emit_def alert3s_def count_time_out_fields)
qed


text \<open>
  Claim C2, as the code has it. A call of \<open>sensor_proc(MSG_IDLE)\<close> finds the request timer
  expired (and the user leaves the "Port is not ready" loop, should it start). The sensor
  shows "N/A" and the cursor advances, whatever the counter. A time-out that finds the
  counter of consecutive time-outs below 3 increments it and changes neither the
  connection flag nor the alerts; a time-out that finds it at 3 resets it, clears the
  connection flag and raises the "Device is not responding" alert once, or not at all
  when "Ignore" was chosen before. The choice of "Ignore" is kept by every time-out.
\<close>

theorem time_out_policy:
  assumes "dp3 d = Some k" and "k < length (sensors s)"
    and "reaches_time_out x d s" and "user_leaves_port_loop x s"
  shows "case sensor_proc x MSG_IDLE d c s of
           Inl e \<Rightarrow> False
         | Inr (r, d', s') \<Rightarrow>
             r = D_REDRAWME
           \<and> screen_buf (sensors s' ! k) = ''N/A''
           \<and> current_sensor s' = next_sensor s
           \<and> \<not> receiving_response s'
           \<and> (if SENSORS_TO_TIME_OUT \<le> num_of_sensors_timed_out s
              then num_of_sensors_timed_out s' = 0 \<and> \<not> device_connected s'
                 \<and> alert3s s' =
                     alert3s s @ (if ignore_device_not_connected s then [] else [device_alert])
              else num_of_sensors_timed_out s' = num_of_sensors_timed_out s + 1
                 \<and> device_connected s' = device_connected s \<and> alert3s s' = alert3s s)
           \<and> (ignore_device_not_connected s \<longrightarrow> ignore_device_not_connected s')"
proof -
  define sent where "sent =
     (emit Start_serial_timer
        ((emit (Send_command (command (sensors s ! k))) s)
           \<lparr>new_page := False, receiving_response := True\<rparr>))\<lparr>vehicle_response := []\<rparr>"
  define more where "more = s\<lparr>vehicle_response := vehicle_response s @ snd (read_comport x)\<rparr>"
  from assms(3) have t: "serial_time_out x" "d1 d = current_sensor s" "\<not> reset_hardware s"
    by (simp_all add: reaches_time_out_def)
  have "sensor_proc x MSG_IDLE d c s = on_time_out x d k s
      \<or> sensor_proc x MSG_IDLE d c s = on_time_out x d k sent
      \<or> sensor_proc x MSG_IDLE d c s = on_time_out x d k more"
    using assms(1,3) t
    by (auto simp add: sensor_proc_def on_idle_def idle_tail_def reaches_time_out_def
        append_response_def sent_def more_def split: prod.splits)
  then obtain s0 where eq: "sensor_proc x MSG_IDLE d c s = on_time_out x d k s0"
    and s0: "s0 = s \<or> s0 = sent \<or> s0 = more"
    by blast
  from s0 have same: "sensors s0 = sensors s" "current_sensor s0 = current_sensor s"
    "sensors_on_page s0 = sensors_on_page s"
    "num_of_sensors_timed_out s0 = num_of_sensors_timed_out s"
    "device_connected s0 = device_connected s"
    "ignore_device_not_connected s0 = ignore_device_not_connected s"
    "comport_status s0 = comport_status s"
    "alert3s s0 = alert3s s"
    by (auto simp add: sent_def more_def emit_def alert3s_def)
  from assms(4) same have "user_leaves_port_loop x s0"
    by (simp add: user_leaves_port_loop_def)
  from on_time_out_returns[OF this, of d k] obtain s' where
    r: "on_time_out x d k s0 = Inr (D_REDRAWME, d, s')"
    and f: "sensors s' = (sensors s0)[k := (sensors s0 ! k)\<lparr>screen_buf := ''N/A''\<rparr>]"
      "current_sensor s' = next_sensor s0"
      "\<not> receiving_response s'"
      "num_of_sensors_timed_out s' =
          (if SENSORS_TO_TIME_OUT \<le> num_of_sensors_timed_out s0 then 0
           else num_of_sensors_timed_out s0 + 1)"
      "device_connected s' =
          (if SENSORS_TO_TIME_OUT \<le> num_of_sensors_timed_out s0 then False
           else device_connected s0)"
      "ignore_device_not_connected s' =
          (ignore_device_not_connected s0
           \<or> (SENSORS_TO_TIME_OUT \<le> num_of_sensors_timed_out s0 \<and> alert3_choice x = 3))"
      "alert3s s' = alert3s s0 @
          (if SENSORS_TO_TIME_OUT \<le> num_of_sensors_timed_out s0 \<and> \<not> ignore_device_not_connected s0
           then [device_alert] else [])"
    by blast
  have n: "next_sensor s0 = next_sensor s"
    using same by (simp add: next_sensor_def)
  show ?thesis
    unfolding eq r using f assms(2) by (simp add: same n)
qed

text \<open>Three requests have timed out in a row (the counter is 3) and the fourth times out,
  the user answering "Ignore": the device counts as disconnected and there is one alert.
  Had "Ignore" been chosen before, there is none.\<close>

theorem time_out_policy_witness:
  "(case sensor_proc (timed_out 3) MSG_IDLE (control 0) 0
           ((awaiting 3)\<lparr>device_connected := True, num_of_sensors_timed_out := 3\<rparr>) of
      Inl e \<Rightarrow> False
    | Inr (r, d', s') \<Rightarrow>
        screen_buf (sensors s' ! 0) = ''N/A'' \<and> current_sensor s' = 1
      \<and> num_of_sensors_timed_out s' = 0 \<and> \<not> device_connected s'
      \<and> alert3s s' = [device_alert])
   \<and> (case sensor_proc (timed_out 3) MSG_IDLE (control 0) 0
           ((awaiting 3)\<lparr>device_connected := True, num_of_sensors_timed_out := 3,
                          ignore_device_not_connected := True\<rparr>) of
      Inl e \<Rightarrow> False
    | Inr (r, d', s') \<Rightarrow>
        screen_buf (sensors s' ! 0) = ''N/A'' \<and> current_sensor s' = 1
      \<and> num_of_sensors_timed_out s' = 0 \<and> \<not> device_connected s'
      \<and> alert3s s' = [] \<and> ignore_device_not_connected s')"
proof -
  let ?a = "(awaiting 3)\<lparr>device_connected := True, num_of_sensors_timed_out := 3\<rparr>"
  let ?b = "(awaiting 3)\<lparr>device_connected := True, num_of_sensors_timed_out := 3,
                          ignore_device_not_connected := True\<rparr>"
  have a: "dp3 (control 0) = Some 0" "0 < length (sensors ?a)"
    "reaches_time_out (timed_out 3) (control 0) ?a" "user_leaves_port_loop (timed_out 3) ?a"
    by (simp_all add: awaiting_def fresh_page_def start_session_def control_def timed_out_def
        quiet_def reaches_time_out_def user_leaves_port_loop_def)
  have b: "dp3 (control 0) = Some 0" "0 < length (sensors ?b)"
    "reaches_time_out (timed_out 3) (control 0) ?b" "user_leaves_port_loop (timed_out 3) ?b"
    by (simp_all add: awaiting_def fresh_page_def start_session_def control_def timed_out_def
        quiet_def reaches_time_out_def user_leaves_port_loop_def)
  have v: "next_sensor ?a = 1" "next_sensor ?b = 1" "alert3s ?a = []" "alert3s ?b = []"
    "\<not> ignore_device_not_connected (awaiting 3)"
    by (simp_all add: awaiting_def fresh_page_def start_session_def next_sensor_def alert3s_def)
  from time_out_policy[OF a, of 0] time_out_policy[OF b, of 0] show ?thesis
    by (auto simp add: v SENSORS_TO_TIME_OUT_def split: sum.splits)
qed

text \<open>The claim as stated has the device disconnected and the alert raised after exactly
  three consecutive time-outs. After three requests that time out, starting from a
  connected device and the counter at 0, the device still counts as connected and no alert
  has been raised; the counter is 3. The fourth time-out disconnects and alerts.\<close>

theorem time_out_policy_counterexample:
  "map_sum id (\<lambda>s. (device_connected s, alert3s s, num_of_sensors_timed_out s, current_sensor s))
     (idle_calls (silence 1 0 @ silence 1 1 @ silence 1 2) (fresh_page\<lparr>device_connected := True\<rparr>))
   = Inr (True, [], 3, 3)
   \<and> map_sum id (\<lambda>s. (device_connected s, alert3s s, num_of_sensors_timed_out s, current_sensor s))
     (idle_calls (silence 1 0 @ silence 1 1 @ silence 1 2 @ silence 1 3)
        (fresh_page\<lparr>device_connected := True\<rparr>))
   = Inr (False, [device_alert], 0, 4)"
  by (simp add: sensor_proc_def on_idle_def on_time_out_def count_time_out_def idle_tail_def
      after_switch_def advance_def next_sensor_def emit_def set_screen_buf_def Let_def
      fresh_page_def start_session_def control_def quiet_def timed_out_def silence_def
      engine_rpm_sensor_def SENSORS_TO_TIME_OUT_def alert3s_def device_alert_def)

section \<open>What \<open>sensor_proc\<close> leaves alone\<close>

lemma port_not_ready_keeps:
  "port_not_ready answers s = Some s' \<Longrightarrow>
     num_of_sensors_off s' = num_of_sensors_off s
     \<and> ignore_device_not_connected s' = ignore_device_not_connected s"
proof (induction answers arbitrary: s)
  case Nil
  then show ?case by (simp split: if_splits)
next
  case (Cons a answers)
  show ?case
  proof (cases "comport_status s = NOT_OPEN")
    case False
    with Cons.prems show ?thesis by simp
  next
    case True
    with Cons.prems Cons.IH show ?thesis
      by (cases "fst a = 1") (fastforce simp add: Let_def emit_def display_options_def)+
  qed
qed

lemma no_value_keeps:
  "no_value rt d k s = (r, d', s') \<Longrightarrow>
     num_of_sensors_off s' = num_of_sensors_off s
     \<and> ignore_device_not_connected s' = ignore_device_not_connected s"
  by (auto simp add: no_value_def retry_alert_def advance_def calculate_refresh_rate_def
      take_sample_def emit_def set_screen_buf_def Let_def split: if_splits)

lemma on_prompt_keeps:
  assumes "on_prompt x buf d k s = Inr (r, d', s')"
  shows "num_of_sensors_off s' = num_of_sensors_off s
     \<and> ignore_device_not_connected s' = ignore_device_not_connected s"
proof -
  let ?s1 = "emit Stop_serial_timer
                 (s\<lparr>device_connected := True, num_of_sensors_timed_out := 0,
                    receiving_response := False\<rparr>)"
  show ?thesis
  proof (cases "new_page ?s1")
    case True
    with assms show ?thesis
      by (auto simp add: on_prompt_def after_switch_def emit_def set_screen_buf_def Let_def
          split: if_splits)
  next
    case False
    with assms show ?thesis
      by (auto simp add: on_prompt_def append_response_def advance_def emit_def
          set_screen_buf_def calculate_refresh_rate_def take_sample_def Let_def
          dest!: no_value_keeps
          split: if_splits option.splits sum.splits prod.splits)
  qed
qed

lemma on_time_out_keeps:
  assumes "on_time_out x d k s = Inr (r, d', s')"
  shows "num_of_sensors_off s' = num_of_sensors_off s
     \<and> (ignore_device_not_connected s \<longrightarrow> ignore_device_not_connected s')"
proof -
  from assms obtain s3 where p: "port_not_ready (port_answers x) (count_time_out x k s) = Some s3"
    and s': "s' = advance (emit Stop_serial_timer s3)"
    by (auto simp add: on_time_out_def split: option.splits)
  have "num_of_sensors_off (count_time_out x k s) = num_of_sensors_off s"
    "ignore_device_not_connected s \<longrightarrow> ignore_device_not_connected (count_time_out x k s)"
    by (auto simp add: count_time_out_def Let_def set_screen_buf_def emit_def display_options_def)
  with port_not_ready_keeps[OF p] s' show ?thesis
    by (simp add: advance_def emit_def)
qed

lemma idle_tail_keeps:
  assumes "idle_tail x d k s = Inr (r, d', s')"
  shows "num_of_sensors_off s' = num_of_sensors_off s
     \<and> (ignore_device_not_connected s \<longrightarrow> ignore_device_not_connected s')"
  using assms on_time_out_keeps[of x d k s r d' s']
  by (auto simp add: idle_tail_def after_switch_def set_screen_buf_def split: if_splits)

lemma on_idle_keeps:
  assumes "on_idle x d k s = Inr (r, d', s')"
  shows "num_of_sensors_off s' = num_of_sensors_off s
     \<and> (ignore_device_not_connected s \<longrightarrow> ignore_device_not_connected s')"
proof -
  have c: "num_of_sensors_off (calculate_refresh_rate st s) = num_of_sensors_off s"
    "ignore_device_not_connected (calculate_refresh_rate st s) = ignore_device_not_connected s"
    for st
    by (simp_all add: calculate_refresh_rate_def take_sample_def emit_def Let_def)
  from assms show ?thesis
    by (auto simp add: on_idle_def c after_switch_def append_response_def advance_def emit_def
        set_screen_buf_def Let_def
        dest!: idle_tail_keeps on_prompt_keeps
        split: if_splits sum.splits prod.splits)
qed

text \<open>No call of \<open>sensor_proc\<close> assigns \<open>num_of_sensors_off\<close>, and only \<open>MSG_START\<close> withdraws
  the user's choice to ignore a device that does not respond.\<close>

lemma sensor_proc_keeps:
  assumes "sensor_proc x m d c s = Inr (r, d', s')"
  shows "num_of_sensors_off s' = num_of_sensors_off s
     \<and> (m \<noteq> MSG_START \<and> ignore_device_not_connected s \<longrightarrow> ignore_device_not_connected s')"
proof (cases m)
  case MSG_IDLE
  with assms on_idle_keeps[of x d _ s r d' s'] show ?thesis
    by (auto simp add: sensor_proc_def emit_def split: if_splits option.splits)
next
  case MSG_START
  with assms show ?thesis
    by (auto simp add: sensor_proc_def on_start_def on_update_def after_switch_def emit_def
        set_screen_buf_def Let_def split: if_splits option.splits)
next
  case MSG_TOGGLE
  with assms show ?thesis
    by (auto simp add: sensor_proc_def on_toggle_def after_switch_def emit_def
        set_screen_buf_def set_enabled_def Let_def split: if_splits option.splits)
qed (use assms in \<open>auto simp add: sensor_proc_def on_update_def on_end_def on_draw_def
        after_switch_def emit_def set_screen_buf_def Let_def split: if_splits option.splits\<close>)

end
